theory Spec2Isabelle
  imports Main "HOL-Library.AList"
begin

section \<open>JavaScript strings\<close>

text \<open>
  A JavaScript string is a sequence of UTF-16 code units. A code unit is modelled as a
  natural number (below 65536 in every string the program can hold), a string as the
  list of its code units. \<open>js\<close> turns a literal of the theory into such a string.
\<close>

type_synonym jschar = nat
type_synonym jsstring = "jschar list"

definition js :: "string \<Rightarrow> jsstring" where
  "js s = map of_char s"

definition hyphen :: jschar where
  "hyphen = 45"

text \<open>
  The characters matched by \<open>\s\<close> in a regular expression and stripped by
  \<open>String.prototype.trim\<close>: the WhiteSpace and LineTerminator code points of ECMAScript.
\<close>

definition isWhiteSpace :: "jschar \<Rightarrow> bool" where
  "isWhiteSpace c \<longleftrightarrow>
     c = 9 \<or> c = 10 \<or> c = 11 \<or> c = 12 \<or> c = 13 \<or> c = 32 \<or> c = 160 \<or> c = 5760 \<or>
     (8192 \<le> c \<and> c \<le> 8202) \<or> c = 8232 \<or> c = 8233 \<or> c = 8239 \<or> c = 8287 \<or>
     c = 12288 \<or> c = 65279"

text \<open>\<open>\w\<close> without the unicode flag: \<open>[A-Za-z0-9_]\<close>.\<close>

definition isUpperAscii :: "jschar \<Rightarrow> bool" where
  "isUpperAscii c \<longleftrightarrow> 65 \<le> c \<and> c \<le> 90"

definition isWordChar :: "jschar \<Rightarrow> bool" where
  "isWordChar c \<longleftrightarrow> isUpperAscii c \<or> (97 \<le> c \<and> c \<le> 122) \<or> (48 \<le> c \<and> c \<le> 57) \<or> c = 95"

text \<open>The class of the code units U+0300 to U+036F: the combining diacritical marks.\<close>

definition isCombiningMark :: "jschar \<Rightarrow> bool" where
  "isCombiningMark c \<longleftrightarrow> 768 \<le> c \<and> c \<le> 879"

text \<open>Removing the characters of a class from both ends of a string.\<close>

definition strip :: "(jschar \<Rightarrow> bool) \<Rightarrow> jsstring \<Rightarrow> jsstring" where
  "strip q s = rev (dropWhile q (rev (dropWhile q s)))"

text \<open>\<open>s.trim()\<close>\<close>

definition trim :: "jsstring \<Rightarrow> jsstring" where
  "trim s = strip isWhiteSpace s"

text \<open>\<open>s.startsWith(t)\<close>, \<open>s.endsWith(t)\<close>\<close>

definition startsWith :: "jsstring \<Rightarrow> jsstring \<Rightarrow> bool" where
  "startsWith s t \<longleftrightarrow> take (length t) s = t"

definition endsWith :: "jsstring \<Rightarrow> jsstring \<Rightarrow> bool" where
  "endsWith s t \<longleftrightarrow> length t \<le> length s \<and> drop (length s - length t) s = t"

text \<open>
  \<open>s.indexOf(t)\<close>: the position of the first occurrence of \<open>t\<close> in \<open>s\<close>, \<open>None\<close> for
  the \<open>-1\<close> of JavaScript; \<open>s.includes(t)\<close> (here \<open>jsIncludes\<close>) says whether there is one.
\<close>

fun indexOf :: "jsstring \<Rightarrow> jsstring \<Rightarrow> nat option" where
  "indexOf [] t = (if t = [] then Some 0 else None)"
| "indexOf (c # cs) t =
     (if startsWith (c # cs) t then Some 0
      else (case indexOf cs t of None \<Rightarrow> None | Some i \<Rightarrow> Some (Suc i)))"

definition jsIncludes :: "jsstring \<Rightarrow> jsstring \<Rightarrow> bool" where
  "jsIncludes s t \<longleftrightarrow> indexOf s t \<noteq> None"

text \<open>\<open>xs.join(sep)\<close>\<close>

fun join :: "jsstring \<Rightarrow> jsstring list \<Rightarrow> jsstring" where
  "join sep [] = []"
| "join sep [x] = x"
| "join sep (x # y # ys) = x @ sep @ join sep (y # ys)"

section \<open>The slug normalizer (\<open>normalizeToKebabCase\<close> of lib/utils)\<close>

text \<open>
  \<open>s.replace(/p+/g, r)\<close> for a character class \<open>p\<close> and a one-character replacement:
  every maximal run of characters of the class becomes the single character \<open>r\<close>.
\<close>

function replaceRuns :: "(jschar \<Rightarrow> bool) \<Rightarrow> jschar \<Rightarrow> jsstring \<Rightarrow> jsstring" where
  "replaceRuns p r [] = []"
| "replaceRuns p r (c # cs) =
     (if p c then r # replaceRuns p r (dropWhile p cs) else c # replaceRuns p r cs)"
  by pat_completeness auto
termination
  by (relation "measure (\<lambda>(p, r, s). length s)")
     (auto simp: length_dropWhile_le le_imp_less_Suc)

text \<open>\<open>s.replace(/^-+|-+$/g, '')\<close>: the hyphens at both ends are removed.\<close>

definition trimHyphens :: "jsstring \<Rightarrow> jsstring" where
  "trimHyphens s = strip (\<lambda>c. c = hyphen) s"

text \<open>
  The two built-ins of the JavaScript runtime that the normalizer calls,
  \<open>String.prototype.normalize('NFD')\<close> and \<open>String.prototype.toLowerCase\<close>, are tables of
  the Unicode standard and not code of this program: they are the parameters \<open>nfd\<close> and
  \<open>lower\<close>. The steps are those of the source, in its order.
\<close>

definition normalizeToKebabCase ::
  "(jsstring \<Rightarrow> jsstring) \<Rightarrow> (jsstring \<Rightarrow> jsstring) \<Rightarrow> jsstring \<Rightarrow> jsstring" where
  "normalizeToKebabCase nfd lower input =
     (if input = [] then []
      else trimHyphens
             (replaceRuns (\<lambda>c. c = hyphen) hyphen
               (filter (\<lambda>c. isWordChar c \<or> c = hyphen)
                 (replaceRuns isWhiteSpace hyphen
                   (lower
                     (filter (\<lambda>c. \<not> isCombiningMark c)
                       (nfd input)))))))"

text \<open>
  The alphabet of a normalized slug, \<open>[a-z0-9_-]\<close>: what the character filter keeps of a
  lowercased string.
\<close>

definition isSlugChar :: "jschar \<Rightarrow> bool" where
  "isSlugChar c \<longleftrightarrow> (isWordChar c \<and> \<not> isUpperAscii c) \<or> c = hyphen"

definition isSlug :: "jsstring \<Rightarrow> bool" where
  "isSlug s \<longleftrightarrow> list_all isSlugChar s"

text \<open>No two adjacent characters of the class \<open>p\<close>.\<close>

fun noRun :: "(jschar \<Rightarrow> bool) \<Rightarrow> jsstring \<Rightarrow> bool" where
  "noRun p [] = True"
| "noRun p [c] = True"
| "noRun p (c # d # cs) = (\<not> (p c \<and> p d) \<and> noRun p (d # cs))"

text \<open>
  An instance of the two built-ins, exact on the Basic Latin and Latin-1 letters it lists
  and the identity elsewhere; it is used to evaluate the normalizer on concrete strings.
\<close>

definition lowerUnit :: "jschar \<Rightarrow> jschar" where
  "lowerUnit c =
     (if isUpperAscii c \<or> (192 \<le> c \<and> c \<le> 222 \<and> c \<noteq> 215) then c + 32 else c)"

definition lower_latin1 :: "jsstring \<Rightarrow> jsstring" where
  "lower_latin1 s = map lowerUnit s"

definition decompose :: "jschar \<Rightarrow> jsstring" where
  "decompose c =
     (if c = 227 then [97, 771]
      else if c = 195 then [65, 771]
      else if c = 233 then [101, 769]
      else if c = 201 then [69, 769]
      else if c = 252 then [117, 776]
      else if c = 220 then [85, 776]
      else if c = 241 then [110, 771]
      else if c = 231 then [99, 807]
      else [c])"

definition nfd_latin1 :: "jsstring \<Rightarrow> jsstring" where
  "nfd_latin1 s = concat (map decompose s)"

section \<open>Rows, events, statistics\<close>

text \<open>
  A parsed CSV row is a JavaScript object from column names to cell values: an association
  list in insertion order. \<open>get\<close> is \<open>row[f] ?? ''\<close> (and \<open>row[f] || ''\<close>, the same on
  strings); \<open>put\<close> is the assignment \<open>row[f] = v\<close>, which keeps the position of an
  existing key and appends a new one. \<open>headersOf\<close> is \<open>Object.keys(rows[0] || {})\<close>.
\<close>

type_synonym row = "(jsstring \<times> jsstring) list"

definition get :: "row \<Rightarrow> jsstring \<Rightarrow> jsstring" where
  "get r f = (case map_of r f of None \<Rightarrow> [] | Some v \<Rightarrow> v)"

definition put :: "row \<Rightarrow> jsstring \<Rightarrow> jsstring \<Rightarrow> row" where
  "put r f v = AList.update f v r"

definition headersOf :: "row list \<Rightarrow> jsstring list" where
  "headersOf rows = (case rows of [] \<Rightarrow> [] | r # _ \<Rightarrow> map fst r)"

record matchEvent =
  ev_field :: jsstring
  oldValue :: jsstring
  newValue :: jsstring

record stats =
  totalFiles :: nat
  processedFiles :: nat
  totalRows :: nat
  processedRows :: nat
  totalMatches :: nat
  totalReplacements :: nat

text \<open>
  The file store (the Filebrowser server and the local output directory) is outside the
  program. For each path it says what downloading and parsing the file gives, and whether
  writing the output of that file succeeds; a failure is an exception that the per-file
  \<open>catch\<close> turns into an error event. The destination path of an output is not modelled:
  an artifact records the save mode and the rows handed to \<open>Papa.unparse\<close>.
\<close>

datatype fileInput = DownloadFailed | ParseErrors | Parsed "row list"

record store =
  download :: "jsstring \<Rightarrow> fileInput"
  persistOk :: "jsstring \<Rightarrow> bool"

datatype saveMode = Filebrowser | Overwrite | Local

datatype artifact = Artifact saveMode "row list"

datatype fileError =
  DownloadError | CsvParsingErrors | PatternError | FieldsNotFound "jsstring list" | PersistError

datatype requestError =
  FilesRequired | SearchTermRequired | NoSearchResults | ReplaceValueRequired
  | OperationsRequired | OperationFieldRequired | NoFilesWithRows
  | SearchTermAndFilesRequired

text \<open>What the loop over the rows of one file accumulates.\<close>

record fileState =
  fs_rows :: "row list"
  fs_matches :: nat
  fs_replacements :: nat
  fs_stats :: stats

text \<open>What \<open>file-complete\<close> reports of a file, with the rows it processed.\<close>

record fileReport =
  rep_rows :: "row list"
  rep_matches :: nat
  rep_replacements :: nat
  rep_artifact :: "artifact option"

definition initState :: "stats \<Rightarrow> fileState" where
  "initState s = \<lparr>fs_rows = [], fs_matches = 0, fs_replacements = 0, fs_stats = s\<rparr>"

definition pushRow :: "row \<Rightarrow> fileState \<Rightarrow> fileState" where
  "pushRow r st = st\<lparr>fs_rows := fs_rows st @ [r]\<rparr>"

definition countRow :: "fileState \<Rightarrow> fileState" where
  "countRow st = st\<lparr>fs_stats := (fs_stats st)\<lparr>processedRows := processedRows (fs_stats st) + 1\<rparr>\<rparr>"

definition countMatch :: "fileState \<Rightarrow> fileState" where
  "countMatch st =
     st\<lparr>fs_matches := fs_matches st + 1,
        fs_stats := (fs_stats st)\<lparr>totalMatches := totalMatches (fs_stats st) + 1\<rparr>\<rparr>"

definition countMatches :: "nat \<Rightarrow> fileState \<Rightarrow> fileState" where
  "countMatches n st =
     st\<lparr>fs_matches := fs_matches st + n,
        fs_stats := (fs_stats st)\<lparr>totalMatches := totalMatches (fs_stats st) + n\<rparr>\<rparr>"

definition countReplacements :: "nat \<Rightarrow> fileState \<Rightarrow> fileState" where
  "countReplacements n st =
     st\<lparr>fs_replacements := fs_replacements st + n,
        fs_stats := (fs_stats st)\<lparr>totalReplacements := totalReplacements (fs_stats st) + n\<rparr>\<rparr>"

definition addTotalRows :: "nat \<Rightarrow> stats \<Rightarrow> stats" where
  "addTotalRows n s = s\<lparr>totalRows := totalRows s + n\<rparr>"

definition countFile :: "stats \<Rightarrow> stats" where
  "countFile s = s\<lparr>processedFiles := processedFiles s + 1\<rparr>"

definition report :: "fileState \<Rightarrow> artifact option \<Rightarrow> fileReport" where
  "report st a =
     \<lparr>rep_rows = fs_rows st, rep_matches = fs_matches st,
      rep_replacements = fs_replacements st, rep_artifact = a\<rparr>"

text \<open>
  The replace and fix-slug-URLs endpoints keep no count of matches: their \<open>file-complete\<close>
  sends the number of replacements as \<open>matchesCount\<close> too.
\<close>

definition editReport :: "fileState \<Rightarrow> artifact option \<Rightarrow> fileReport" where
  "editReport st a =
     \<lparr>rep_rows = fs_rows st, rep_matches = fs_replacements st,
      rep_replacements = fs_replacements st, rep_artifact = a\<rparr>"

section \<open>The field matcher and the row predicate (api/csv/process)\<close>

text \<open>
  \<open>new RegExp(pattern, flags)\<close> and \<open>re.test\<close> belong to the runtime: the engine is a
  parameter that gives, for a pattern and the ignore-case flag, the test of the compiled
  expression, or \<open>None\<close> where the constructor throws a SyntaxError. The program resets
  \<open>lastIndex\<close> before every test of a global expression, so a test has no state.
\<close>

type_synonym regexEngine = "jsstring \<Rightarrow> bool \<Rightarrow> (jsstring \<Rightarrow> bool) option"

datatype matchMode = Contains | Equals | Regex | StartsWith | EndsWith

datatype advancedLogic = AND | OR

record fieldSearchCondition =
  cond_field :: jsstring
  cond_value :: jsstring
  cond_mode :: "matchMode option"

record advancedSearchConfig =
  conditions :: "fieldSearchCondition list"
  logic :: "advancedLogic option"
  adv_caseSensitive :: bool

definition buildFieldMatcher ::
  "regexEngine \<Rightarrow> (jsstring \<Rightarrow> jsstring) \<Rightarrow> fieldSearchCondition \<Rightarrow> bool
     \<Rightarrow> (jsstring \<Rightarrow> bool) option" where
  "buildFieldMatcher engine lower cond globalCaseSensitive =
     (let caseSensitive = globalCaseSensitive;
          mode = (case cond_mode cond of None \<Rightarrow> Contains | Some m \<Rightarrow> m)
      in if mode = Regex then engine (cond_value cond) (\<not> caseSensitive)
         else
           (let needle = (if caseSensitive then cond_value cond else lower (cond_value cond))
            in Some (\<lambda>raw.
                 (let hay = (if caseSensitive then raw else lower raw)
                  in case mode of
                       Equals \<Rightarrow> hay = needle
                     | StartsWith \<Rightarrow> startsWith hay needle
                     | EndsWith \<Rightarrow> endsWith hay needle
                     | _ \<Rightarrow> jsIncludes hay needle))))"

text \<open>The filter of \<open>activeConds\<close>: \<open>c.value && c.value.trim() !== ''\<close>.\<close>

definition isActive :: "fieldSearchCondition \<Rightarrow> bool" where
  "isActive c \<longleftrightarrow> cond_value c \<noteq> [] \<and> trim (cond_value c) \<noteq> []"

text \<open>A value that is empty or consists only of whitespace.\<close>

definition isBlank :: "jsstring \<Rightarrow> bool" where
  "isBlank v \<longleftrightarrow> list_all isWhiteSpace v"

text \<open>The AND loop: it returns at the first missing field or failing condition.\<close>

fun matchAnd ::
  "jsstring list \<Rightarrow> row \<Rightarrow> (fieldSearchCondition \<times> (jsstring \<Rightarrow> bool)) list \<Rightarrow> jsstring list
     \<Rightarrow> bool \<times> jsstring list" where
  "matchAnd headers r [] matchedFields = (True, matchedFields)"
| "matchAnd headers r ((c, m) # rest) matchedFields =
     (if cond_field c \<notin> set headers then (False, [])
      else if \<not> m (get r (cond_field c)) then (False, [])
      else matchAnd headers r rest (matchedFields @ [cond_field c]))"

text \<open>The OR loop: a condition on a missing field is skipped.\<close>

fun matchOr ::
  "jsstring list \<Rightarrow> row \<Rightarrow> (fieldSearchCondition \<times> (jsstring \<Rightarrow> bool)) list \<Rightarrow> bool
     \<Rightarrow> jsstring list \<Rightarrow> bool \<times> jsstring list" where
  "matchOr headers r [] any matchedFields = (any, if any then matchedFields else [])"
| "matchOr headers r ((c, m) # rest) any matchedFields =
     (if cond_field c \<notin> set headers then matchOr headers r rest any matchedFields
      else if m (get r (cond_field c))
           then matchOr headers r rest True (matchedFields @ [cond_field c])
           else matchOr headers r rest any matchedFields)"

text \<open>\<open>activeConds.map(...)\<close>: the first pattern that does not compile throws.\<close>

fun buildMatchers ::
  "regexEngine \<Rightarrow> (jsstring \<Rightarrow> jsstring) \<Rightarrow> bool \<Rightarrow> fieldSearchCondition list
     \<Rightarrow> fileError + (fieldSearchCondition \<times> (jsstring \<Rightarrow> bool)) list" where
  "buildMatchers engine lower cs [] = Inr []"
| "buildMatchers engine lower cs (c # rest) =
     (case buildFieldMatcher engine lower c cs of
        None \<Rightarrow> Inl PatternError
      | Some m \<Rightarrow>
          (case buildMatchers engine lower cs rest of
             Inl e \<Rightarrow> Inl e
           | Inr ms \<Rightarrow> Inr ((c, m) # ms)))"

definition rowMatchesAdvanced ::
  "regexEngine \<Rightarrow> (jsstring \<Rightarrow> jsstring) \<Rightarrow> row \<Rightarrow> jsstring list \<Rightarrow> advancedSearchConfig
     \<Rightarrow> fileError + (bool \<times> jsstring list)" where
  "rowMatchesAdvanced engine lower r headers advanced =
     (let logic = (case logic advanced of None \<Rightarrow> AND | Some l \<Rightarrow> l);
          caseSensitive = adv_caseSensitive advanced;
          activeConds = filter isActive (conditions advanced)
      in if length activeConds = 0 then Inr (True, [])
         else
           (case buildMatchers engine lower caseSensitive activeConds of
              Inl e \<Rightarrow> Inl e
            | Inr fieldMatchers \<Rightarrow>
                if logic = AND then Inr (matchAnd headers r fieldMatchers [])
                else Inr (matchOr headers r fieldMatchers False [])))"

section \<open>The process endpoint (api/csv/process): simple mode\<close>

record fileRef =
  file_path :: jsstring
  file_name :: jsstring

record processRequest =
  files :: "fileRef list"
  searchTerm :: "jsstring option"
  replaceTerm :: "jsstring option"
  selectedFields :: "jsstring list"
  showOnlyMatches :: bool
  req_saveMode :: saveMode
  caseSensitive :: bool
  wholeWord :: bool
  useRegex :: bool
  advanced :: "advancedSearchConfig option"
  replaceTargetField :: "jsstring option"
  replaceValue :: "jsstring option"

text \<open>
  \<open>searchTerm.replace(/[.*+?^${}()|[\]\\]/g, '\\$&')\<close>: a backslash (code unit 92) before
  every character of the class.
\<close>

definition isRegexSpecial :: "jschar \<Rightarrow> bool" where
  "isRegexSpecial c \<longleftrightarrow>
     c = 46 \<or> c = 42 \<or> c = 43 \<or> c = 63 \<or> c = 94 \<or> c = 36 \<or> c = 123 \<or> c = 125 \<or>
     c = 40 \<or> c = 41 \<or> c = 124 \<or> c = 91 \<or> c = 93 \<or> c = 92"

definition escapeRegExp :: "jsstring \<Rightarrow> jsstring" where
  "escapeRegExp s = concat (map (\<lambda>c. if isRegexSpecial c then [92, c] else [c]) s)"

definition searchPattern :: "jsstring \<Rightarrow> bool \<Rightarrow> bool \<Rightarrow> jsstring" where
  "searchPattern term regex whole =
     (if regex then (if whole then [92, 98, 40] @ term @ [41, 92, 98] else term)
      else (let escaped = escapeRegExp term
            in if whole then [92, 98] @ escaped @ [92, 98] else escaped))"

definition replaceFieldsOf :: "jsstring list \<Rightarrow> jsstring list \<Rightarrow> jsstring list" where
  "replaceFieldsOf selected headers =
     (if js ''All'' \<in> set selected \<or> length selected = 0 then headers
      else filter (\<lambda>f. f \<in> set headers) selected)"

text \<open>\<open>replaceTerm !== undefined && replaceTerm !== ''\<close>, with the term when it holds.\<close>

definition replaceModeTerm :: "jsstring option \<Rightarrow> jsstring option" where
  "replaceModeTerm t = (case t of None \<Rightarrow> None | Some v \<Rightarrow> if v = [] then None else Some v)"

definition event :: "jsstring \<Rightarrow> jsstring \<Rightarrow> jsstring \<Rightarrow> matchEvent" where
  "event f old new = \<lparr>ev_field = f, oldValue = old, newValue = new\<rparr>"

text \<open>
  The loop of replace mode over the target fields: a field whose value differs from the
  replacement term is assigned the term, with one event.
\<close>

fun overwriteFields ::
  "jsstring \<Rightarrow> jsstring list \<Rightarrow> row \<times> matchEvent list \<Rightarrow> row \<times> matchEvent list" where
  "overwriteFields new [] st = st"
| "overwriteFields new (f # fs) (r, evs) =
     (let old = get r f
      in if new \<noteq> old then overwriteFields new fs (put r f new, evs @ [event f old new])
         else overwriteFields new fs (r, evs))"

definition rowText :: "jsstring list \<Rightarrow> row \<Rightarrow> jsstring" where
  "rowText searchFields r = join (js '' '') (map (get r) searchFields)"

text \<open>
  One row of the simple-mode loop after the row-level test: whether the row matched, the
  row as it goes on, and its events.
\<close>

definition simpleRow ::
  "(jsstring \<Rightarrow> bool) \<Rightarrow> jsstring list \<Rightarrow> jsstring list \<Rightarrow> jsstring option \<Rightarrow> row
     \<Rightarrow> bool \<times> row \<times> matchEvent list" where
  "simpleRow test searchFields replaceFields term r =
     (if \<not> test (rowText searchFields r) then (False, r, [])
      else
        (case replaceModeTerm term of
           None \<Rightarrow>
             (True, r, map (\<lambda>f. event f (get r f) (get r f))
                         (filter (\<lambda>f. test (get r f)) searchFields))
         | Some new \<Rightarrow>
             (let (r', evs) = overwriteFields new replaceFields (r, []) in (True, r', evs))))"

definition simpleStep ::
  "(jsstring \<Rightarrow> bool) \<Rightarrow> jsstring list \<Rightarrow> jsstring list \<Rightarrow> jsstring option \<Rightarrow> bool \<Rightarrow> row
     \<Rightarrow> fileState \<Rightarrow> fileState" where
  "simpleStep test searchFields replaceFields term showOnly r st =
     (let (rowMatched, r', evs) = simpleRow test searchFields replaceFields term r
      in if \<not> rowMatched then countRow (if \<not> showOnly then pushRow r' st else st)
         else
           (let st1 = countMatch st;
                st2 = (if replaceModeTerm term = None then st1
                       else countReplacements (length evs) st1);
                st3 = (if \<not> showOnly \<or> rowMatched then pushRow r' st2 else st2)
            in countRow st3))"

text \<open>
  Writing the output of a file: in every save mode the rows are serialised and written,
  and the write can fail.
\<close>

definition persist ::
  "store \<Rightarrow> saveMode \<Rightarrow> jsstring \<Rightarrow> fileState \<Rightarrow> stats \<times> (fileError + fileReport)" where
  "persist fb mode path st =
     (if persistOk fb path
      then (countFile (fs_stats st), Inr (report st (Some (Artifact mode (fs_rows st)))))
      else (fs_stats st, Inl PersistError))"

definition processFileSimple ::
  "regexEngine \<Rightarrow> store \<Rightarrow> processRequest \<Rightarrow> jsstring \<Rightarrow> stats \<Rightarrow> fileRef
     \<Rightarrow> stats \<times> (fileError + fileReport)" where
  "processFileSimple engine fb req term s file =
     (case download fb (file_path file) of
        DownloadFailed \<Rightarrow> (s, Inl DownloadError)
      | ParseErrors \<Rightarrow> (s, Inl CsvParsingErrors)
      | Parsed rows \<Rightarrow>
          (let headers = headersOf rows;
               s1 = addTotalRows (length rows) s;
               replaceFields = replaceFieldsOf (selectedFields req) headers;
               searchFields = headers
           in case engine (searchPattern term (useRegex req) (wholeWord req))
                     (\<not> caseSensitive req) of
                None \<Rightarrow> (s1, Inl PatternError)
              | Some test \<Rightarrow>
                  (let st = fold (simpleStep test searchFields replaceFields (replaceTerm req)
                                    (showOnlyMatches req)) rows (initState s1)
                   in if replaceModeTerm (replaceTerm req) \<noteq> None
                      then persist fb (req_saveMode req) (file_path file) st
                      else (countFile (fs_stats st), Inr (report st None)))))"

text \<open>
  The loop over the files: the statistics are threaded through, the per-file results are
  collected in order.
\<close>

fun forFiles ::
  "(stats \<Rightarrow> 'f \<Rightarrow> stats \<times> (fileError + fileReport)) \<Rightarrow> 'f list \<Rightarrow> stats
     \<Rightarrow> stats \<times> (fileError + fileReport) list" where
  "forFiles body [] s = (s, [])"
| "forFiles body (f # fs) s =
     (let (s1, res) = body s f; (s2, ress) = forFiles body fs s1 in (s2, res # ress))"

definition initStats :: "nat \<Rightarrow> stats" where
  "initStats n =
     \<lparr>totalFiles = n, processedFiles = 0, totalRows = 0, processedRows = 0,
      totalMatches = 0, totalReplacements = 0\<rparr>"

section \<open>The per-field simple-mode handler\<close>

text \<open>
  The repository holds a second handler for simple-mode requests (the second file of
  src/app/api/csv/detect-location-state/route.ts). It has no advanced mode and no
  row-level test: the expression is tested on the value of each selected field, and in
  replace mode a matching value is assigned \<open>value.replace(searchRegex, replaceTerm)\<close>.
  \<open>String.prototype.replace\<close> with the compiled global expression belongs to the runtime:
  the replacer is a parameter that gives, for a pattern, the ignore-case flag, a value
  and the replacement term, the new value.
\<close>

type_synonym regexReplacer = "jsstring \<Rightarrow> bool \<Rightarrow> jsstring \<Rightarrow> jsstring \<Rightarrow> jsstring"

text \<open>
  The loop over \<open>fieldsToSearch\<close> for one row: the row, \<open>rowHasMatch\<close> and the events.
  Every matching field counts as one match, in replace mode also as one replacement.
\<close>

fun perFieldRow ::
  "(jsstring \<Rightarrow> bool) \<Rightarrow> (jsstring \<Rightarrow> jsstring \<Rightarrow> jsstring) \<Rightarrow> jsstring option \<Rightarrow> jsstring list
     \<Rightarrow> row \<times> bool \<times> matchEvent list \<Rightarrow> row \<times> bool \<times> matchEvent list" where
  "perFieldRow test repl term [] st = st"
| "perFieldRow test repl term (f # fs) (r, rowHasMatch, evs) =
     (let v = get r f
      in if test v
         then (case replaceModeTerm term of
                 Some new \<Rightarrow>
                   (let newValue = repl v new
                    in perFieldRow test repl term fs
                         (put r f newValue, True, evs @ [event f v newValue]))
               | None \<Rightarrow> perFieldRow test repl term fs (r, True, evs @ [event f v v]))
         else perFieldRow test repl term fs (r, rowHasMatch, evs))"

definition perFieldStep ::
  "(jsstring \<Rightarrow> bool) \<Rightarrow> (jsstring \<Rightarrow> jsstring \<Rightarrow> jsstring) \<Rightarrow> jsstring option \<Rightarrow> jsstring list
     \<Rightarrow> bool \<Rightarrow> row \<Rightarrow> fileState \<Rightarrow> fileState" where
  "perFieldStep test repl term fieldsToSearch showOnly r st =
     (let (r', rowHasMatch, evs) = perFieldRow test repl term fieldsToSearch (r, False, []);
          st1 = countMatches (length evs) st;
          st2 = (if replaceModeTerm term = None then st1
                 else countReplacements (length evs) st1);
          st3 = (if \<not> showOnly \<or> rowHasMatch then pushRow r' st2 else st2)
      in countRow st3)"

definition processFilePerField ::
  "regexEngine \<Rightarrow> regexReplacer \<Rightarrow> store \<Rightarrow> processRequest \<Rightarrow> jsstring \<Rightarrow> stats \<Rightarrow> fileRef
     \<Rightarrow> stats \<times> (fileError + fileReport)" where
  "processFilePerField engine replacer fb req term s file =
     (case download fb (file_path file) of
        DownloadFailed \<Rightarrow> (s, Inl DownloadError)
      | ParseErrors \<Rightarrow> (s, Inl CsvParsingErrors)
      | Parsed rows \<Rightarrow>
          (let headers = headersOf rows;
               s1 = addTotalRows (length rows) s;
               fieldsToSearch = replaceFieldsOf (selectedFields req) headers;
               pattern = searchPattern term (useRegex req) (wholeWord req)
           in case engine pattern (\<not> caseSensitive req) of
                None \<Rightarrow> (s1, Inl PatternError)
              | Some test \<Rightarrow>
                  (let st = fold (perFieldStep test (replacer pattern (\<not> caseSensitive req))
                                    (replaceTerm req) fieldsToSearch (showOnlyMatches req))
                              rows (initState s1)
                   in if replaceModeTerm (replaceTerm req) \<noteq> None
                      then persist fb (req_saveMode req) (file_path file) st
                      else (countFile (fs_stats st), Inr (report st None)))))"

definition perFieldPOST ::
  "regexEngine \<Rightarrow> regexReplacer \<Rightarrow> store \<Rightarrow> processRequest
     \<Rightarrow> requestError + stats \<times> (fileError + fileReport) list" where
  "perFieldPOST engine replacer fb req =
     (case searchTerm req of
        None \<Rightarrow> Inl SearchTermAndFilesRequired
      | Some term \<Rightarrow>
          if term = [] \<or> length (files req) = 0 then Inl SearchTermAndFilesRequired
          else Inr (forFiles (processFilePerField engine replacer fb req term) (files req)
                      (initStats (length (files req)))))"

section \<open>The process endpoint: advanced mode (\<open>processFilesWithAdvancedSearch\<close>)\<close>

text \<open>\<open>!!(replaceTargetField && replaceValue !== undefined)\<close>, with field and value.\<close>

definition advancedReplace :: "jsstring option \<Rightarrow> jsstring option \<Rightarrow> (jsstring \<times> jsstring) option" where
  "advancedReplace target val =
     (case target of
        None \<Rightarrow> None
      | Some f \<Rightarrow> if f = [] then None else (case val of None \<Rightarrow> None | Some v \<Rightarrow> Some (f, v)))"

definition foundEvents :: "row \<Rightarrow> jsstring list \<Rightarrow> matchEvent list" where
  "foundEvents r matchedFields = map (\<lambda>f. event f (get r f) (get r f)) matchedFields"

text \<open>
  A matched row of the advanced loop: the target field is overwritten when the request
  replaces and the headers have the field, otherwise the matched fields are reported.
  The result is the row, its events and the number of replacements.
\<close>

definition advancedRow ::
  "jsstring list \<Rightarrow> (jsstring \<times> jsstring) option \<Rightarrow> jsstring list \<Rightarrow> row
     \<Rightarrow> row \<times> matchEvent list \<times> nat" where
  "advancedRow headers repl matchedFields r =
     (case repl of
        None \<Rightarrow> (r, foundEvents r matchedFields, 0)
      | Some (target, new) \<Rightarrow>
          if target \<in> set headers
          then (let old = get r target
                in if new \<noteq> old then (put r target new, [event target old new], 1)
                   else (r, [], 0))
          else (r, foundEvents r matchedFields, 0))"

definition advancedStep ::
  "regexEngine \<Rightarrow> (jsstring \<Rightarrow> jsstring) \<Rightarrow> advancedSearchConfig \<Rightarrow> jsstring list
     \<Rightarrow> (jsstring \<times> jsstring) option \<Rightarrow> bool \<Rightarrow> row \<Rightarrow> fileState \<Rightarrow> fileError + fileState" where
  "advancedStep engine lower adv headers repl showOnly r st =
     (case rowMatchesAdvanced engine lower r headers adv of
        Inl e \<Rightarrow> Inl e
      | Inr (rowMatchesFlag, matchedFields) \<Rightarrow>
          if \<not> rowMatchesFlag then Inr (countRow (if \<not> showOnly then pushRow r st else st))
          else
            (let st1 = countMatch st;
                 (r', evs, n) = advancedRow headers repl matchedFields r;
                 st2 = countReplacements n st1;
                 st3 = (if \<not> showOnly \<or> length evs > 0 then pushRow r' st2 else st2)
             in Inr (countRow st3)))"

text \<open>
  The loop over the rows; a pattern that does not compile throws at the start of an
  iteration, and the statistics counted so far stay.
\<close>

fun advancedLoop ::
  "(row \<Rightarrow> fileState \<Rightarrow> fileError + fileState) \<Rightarrow> row list \<Rightarrow> fileState
     \<Rightarrow> fileState \<times> fileError option" where
  "advancedLoop step [] st = (st, None)"
| "advancedLoop step (r # rs) st =
     (case step r st of Inl e \<Rightarrow> (st, Some e) | Inr st' \<Rightarrow> advancedLoop step rs st')"

definition processFileAdvanced ::
  "regexEngine \<Rightarrow> (jsstring \<Rightarrow> jsstring) \<Rightarrow> store \<Rightarrow> advancedSearchConfig
     \<Rightarrow> (jsstring \<times> jsstring) option \<Rightarrow> bool \<Rightarrow> saveMode \<Rightarrow> stats \<Rightarrow> fileRef
     \<Rightarrow> stats \<times> (fileError + fileReport)" where
  "processFileAdvanced engine lower fb adv repl showOnly mode s file =
     (case download fb (file_path file) of
        DownloadFailed \<Rightarrow> (s, Inl DownloadError)
      | ParseErrors \<Rightarrow> (s, Inl CsvParsingErrors)
      | Parsed rows \<Rightarrow>
          (let headers = headersOf rows;
               s1 = addTotalRows (length rows) s
           in case advancedLoop (advancedStep engine lower adv headers repl showOnly) rows
                     (initState s1) of
                (st, Some e) \<Rightarrow> (fs_stats st, Inl e)
              | (st, None) \<Rightarrow>
                  if repl \<noteq> None then persist fb mode (file_path file) st
                  else (countFile (fs_stats st), Inr (report st None))))"

definition processFilesWithAdvancedSearch ::
  "regexEngine \<Rightarrow> (jsstring \<Rightarrow> jsstring) \<Rightarrow> store \<Rightarrow> fileRef list \<Rightarrow> advancedSearchConfig
     \<Rightarrow> jsstring option \<Rightarrow> jsstring option \<Rightarrow> bool \<Rightarrow> saveMode \<Rightarrow> stats
     \<Rightarrow> stats \<times> (fileError + fileReport) list" where
  "processFilesWithAdvancedSearch engine lower fb fs adv target val showOnly mode s =
     forFiles (processFileAdvanced engine lower fb adv (advancedReplace target val) showOnly mode)
       fs s"

text \<open>
  \<open>advanced && Array.isArray(advanced.conditions) && advanced.conditions.length > 0\<close>,
  with the configuration when it holds.
\<close>

definition useAdvanced :: "processRequest \<Rightarrow> advancedSearchConfig option" where
  "useAdvanced req =
     (case advanced req of
        None \<Rightarrow> None
      | Some a \<Rightarrow> if length (conditions a) > 0 then Some a else None)"

text \<open>The handler of the process endpoint.\<close>

definition processPOST ::
  "regexEngine \<Rightarrow> (jsstring \<Rightarrow> jsstring) \<Rightarrow> store \<Rightarrow> processRequest
     \<Rightarrow> requestError + stats \<times> (fileError + fileReport) list" where
  "processPOST engine lower fb req =
     (if length (files req) = 0 then Inl FilesRequired
      else
        (let s = initStats (length (files req))
         in case useAdvanced req of
              Some a \<Rightarrow>
                Inr (processFilesWithAdvancedSearch engine lower fb (files req) a
                       (replaceTargetField req) (replaceValue req) (showOnlyMatches req)
                       (req_saveMode req) s)
            | None \<Rightarrow>
                (case searchTerm req of
                   None \<Rightarrow> Inl SearchTermRequired
                 | Some term \<Rightarrow>
                     if term = [] then Inl SearchTermRequired
                     else Inr (forFiles (processFileSimple engine fb req term) (files req) s))))"

section \<open>The replace endpoint (api/csv/replace)\<close>

record searchResult =
  sr_filename :: jsstring
  sr_path :: jsstring
  sr_rows :: "int list"

record replaceOp =
  op_field :: jsstring
  op_value :: jsstring

record replaceRequest =
  searchResults :: "searchResult list"
  rr_replaceTargetField :: "jsstring option"
  rr_replaceValue :: "jsstring option"
  replaceOperations :: "replaceOp list option"
  rr_saveMode :: saveMode

text \<open>
  One operation on a targeted row: the field is assigned when the value differs, with one
  event, and a change of \<open>location\<close> is remembered for the slug rule.
\<close>

type_synonym opState = "row \<times> matchEvent list \<times> (jsstring \<times> jsstring) option"

definition applyOperation :: "jsstring list \<Rightarrow> replaceOp \<Rightarrow> opState \<Rightarrow> opState" where
  "applyOperation headers op st =
     (case st of (r, evs, locationReplacement) \<Rightarrow>
        if op_field op \<notin> set headers then (r, evs, locationReplacement)
        else
          (let old = get r (op_field op); new = op_value op
           in if old \<noteq> new
              then (put r (op_field op) new, evs @ [event (op_field op) old new],
                    if op_field op = js ''location'' then Some (old, new)
                    else locationReplacement)
              else (r, evs, locationReplacement)))"

text \<open>
  What the loop over the operations maintains: a remembered change of \<open>location\<close> carries
  the value the row has in that field.
\<close>

definition locationTracked :: "opState \<Rightarrow> bool" where
  "locationTracked st =
     (case st of (r, evs, locationReplacement) \<Rightarrow>
        (case locationReplacement of
           None \<Rightarrow> True
         | Some (old, new) \<Rightarrow> get r (js ''location'') = new))"

text \<open>The derived-field rule of the replace endpoint.\<close>

definition updateSlugUrl ::
  "(jsstring \<Rightarrow> jsstring) \<Rightarrow> (jsstring \<Rightarrow> jsstring) \<Rightarrow> jsstring list \<Rightarrow> opState
     \<Rightarrow> row \<times> matchEvent list" where
  "updateSlugUrl nfd lower headers st =
     (case st of (r, evs, locationReplacement) \<Rightarrow>
        (case locationReplacement of
           None \<Rightarrow> (r, evs)
         | Some (old, new) \<Rightarrow>
             if js ''slug_url'' \<notin> set headers then (r, evs)
             else
               (let currentSlugUrl = trim (get r (js ''slug_url''))
                in if \<not> jsIncludes currentSlugUrl (js ''-salary'') then (r, evs)
                   else
                     (case indexOf currentSlugUrl (js ''-salary'') of
                        None \<Rightarrow> (r, evs)
                      | Some salaryIndex \<Rightarrow>
                          (let baseSlug = take (salaryIndex + 7) currentSlugUrl;
                               normalizedNewLocation = normalizeToKebabCase nfd lower new;
                               newSlugUrl =
                                 (if normalizedNewLocation \<noteq> []
                                  then baseSlug @ [hyphen] @ normalizedNewLocation
                                  else baseSlug)
                           in if newSlugUrl \<noteq> currentSlugUrl
                              then (put r (js ''slug_url'') newSlugUrl,
                                    evs @ [event (js ''slug_url'') currentSlugUrl newSlugUrl])
                              else (r, evs))))))"

text \<open>A targeted row: all operations in order, then the slug rule.\<close>

definition replaceRow ::
  "(jsstring \<Rightarrow> jsstring) \<Rightarrow> (jsstring \<Rightarrow> jsstring) \<Rightarrow> jsstring list \<Rightarrow> replaceOp list \<Rightarrow> row
     \<Rightarrow> row \<times> matchEvent list" where
  "replaceRow nfd lower headers ops r =
     updateSlugUrl nfd lower headers (fold (applyOperation headers) ops (r, [], None))"

text \<open>
  \<open>rowsToReplace.has(i)\<close> for the set of the submitted indices, each minus one.
\<close>

definition targeted :: "int list \<Rightarrow> nat \<Rightarrow> bool" where
  "targeted idxs i \<longleftrightarrow> int i \<in> set (map (\<lambda>k. k - 1) idxs)"

text \<open>
  One iteration of the loop over the rows of the replace and fix endpoints: a targeted row
  is edited, every row is pushed and counted, each event counts as one replacement.
\<close>

definition editStep ::
  "(row \<Rightarrow> row \<times> matchEvent list) \<Rightarrow> int list \<Rightarrow> nat \<times> row \<Rightarrow> fileState \<Rightarrow> fileState" where
  "editStep edit idxs ir st =
     (case ir of (i, r) \<Rightarrow>
        (let (r', evs) = (if targeted idxs i then edit r else (r, []))
         in countRow (pushRow r' (countReplacements (length evs) st))))"

definition editLoop ::
  "(row \<Rightarrow> row \<times> matchEvent list) \<Rightarrow> int list \<Rightarrow> row list \<Rightarrow> fileState \<Rightarrow> fileState" where
  "editLoop edit idxs rows st = fold (editStep edit idxs) (enumerate 0 rows) st"

text \<open>The end of a file in the replace and fix endpoints: saved only with replacements.\<close>

definition saveIfChanged ::
  "store \<Rightarrow> saveMode \<Rightarrow> jsstring \<Rightarrow> fileState \<Rightarrow> stats \<times> (fileError + fileReport)" where
  "saveIfChanged fb mode path st =
     (if fs_replacements st > 0
      then (if persistOk fb path
            then (countFile (fs_stats st),
                  Inr (editReport st (Some (Artifact mode (fs_rows st)))))
            else (fs_stats st, Inl PersistError))
      else (fs_stats st, Inr (editReport st None)))"

definition replaceFile ::
  "(jsstring \<Rightarrow> jsstring) \<Rightarrow> (jsstring \<Rightarrow> jsstring) \<Rightarrow> store \<Rightarrow> replaceOp list \<Rightarrow> saveMode
     \<Rightarrow> stats \<Rightarrow> jsstring \<times> searchResult \<Rightarrow> stats \<times> (fileError + fileReport)" where
  "replaceFile nfd lower fb ops mode s entry =
     (case entry of (filePath, sr) \<Rightarrow>
        (case download fb filePath of
           DownloadFailed \<Rightarrow> (s, Inl DownloadError)
         | ParseErrors \<Rightarrow> (s, Inl CsvParsingErrors)
         | Parsed rows \<Rightarrow>
             (let headers = headersOf rows;
                  s1 = addTotalRows (length rows) s;
                  invalidFields = filter (\<lambda>f. f \<notin> set headers) (map op_field ops)
              in if length invalidFields > 0 then (s1, Inl (FieldsNotFound invalidFields))
                 else saveIfChanged fb mode filePath
                        (editLoop (replaceRow nfd lower headers ops) (sr_rows sr) rows
                           (initState s1)))))"

text \<open>
  \<open>filesMap\<close>: the results with rows, keyed by path; a later result of the same path
  replaces the earlier one in its place.
\<close>

definition filesMapOf :: "searchResult list \<Rightarrow> (jsstring \<times> searchResult) list" where
  "filesMapOf results =
     fold (\<lambda>result m. if length (sr_rows result) > 0 then AList.update (sr_path result) result m
                        else m) results []"

definition operationsOf :: "replaceRequest \<Rightarrow> requestError + replaceOp list" where
  "operationsOf req =
     (case (case replaceOperations req of None \<Rightarrow> [] | Some ops \<Rightarrow> ops) of
        op # ops \<Rightarrow> Inr (op # ops)
      | [] \<Rightarrow>
          (case rr_replaceTargetField req of
             None \<Rightarrow> Inl OperationsRequired
           | Some f \<Rightarrow>
               if f = [] then Inl OperationsRequired
               else (case rr_replaceValue req of
                       None \<Rightarrow> Inl ReplaceValueRequired
                     | Some v \<Rightarrow> Inr [\<lparr>op_field = f, op_value = v\<rparr>])))"

definition replacePOST ::
  "(jsstring \<Rightarrow> jsstring) \<Rightarrow> (jsstring \<Rightarrow> jsstring) \<Rightarrow> store \<Rightarrow> replaceRequest
     \<Rightarrow> requestError + stats \<times> (fileError + fileReport) list" where
  "replacePOST nfd lower fb req =
     (if length (searchResults req) = 0 then Inl NoSearchResults
      else
        (case operationsOf req of
           Inl e \<Rightarrow> Inl e
         | Inr operations \<Rightarrow>
             if list_ex (\<lambda>op. op_field op = []) operations then Inl OperationFieldRequired
             else
               (let filesMap = filesMapOf (searchResults req)
                in if length filesMap = 0 then Inl NoFilesWithRows
                   else Inr (forFiles (replaceFile nfd lower fb operations (rr_saveMode req))
                               filesMap (initStats (length filesMap))))))"

section \<open>The fix-slug-URLs endpoint (api/csv/fix-slug-urls)\<close>

definition fixSlugRow ::
  "(jsstring \<Rightarrow> jsstring) \<Rightarrow> (jsstring \<Rightarrow> jsstring) \<Rightarrow> row \<Rightarrow> row \<times> matchEvent list" where
  "fixSlugRow nfd lower r =
     (let currentSlugUrl = trim (get r (js ''slug_url''));
          location = trim (get r (js ''location''));
          normalizedLocation = normalizeToKebabCase nfd lower location
      in if endsWith currentSlugUrl (js ''-salary'')
         then if normalizedLocation \<noteq> []
              then (let expectedSuffix = js ''-salary-'' @ normalizedLocation
                    in if \<not> endsWith currentSlugUrl expectedSuffix
                       then (let newSlugUrl = currentSlugUrl @ [hyphen] @ normalizedLocation
                             in (put r (js ''slug_url'') newSlugUrl,
                                 [event (js ''slug_url'') currentSlugUrl newSlugUrl]))
                       else (r, []))
              else (r, [])
         else (r, []))"

definition fixSlugFile ::
  "(jsstring \<Rightarrow> jsstring) \<Rightarrow> (jsstring \<Rightarrow> jsstring) \<Rightarrow> store \<Rightarrow> saveMode \<Rightarrow> stats
     \<Rightarrow> jsstring \<times> searchResult \<Rightarrow> stats \<times> (fileError + fileReport)" where
  "fixSlugFile nfd lower fb mode s entry =
     (case entry of (filePath, sr) \<Rightarrow>
        (case download fb filePath of
           DownloadFailed \<Rightarrow> (s, Inl DownloadError)
         | ParseErrors \<Rightarrow> (s, Inl CsvParsingErrors)
         | Parsed rows \<Rightarrow>
             (let headers = headersOf rows;
                  s1 = addTotalRows (length rows) s
              in if js ''slug_url'' \<notin> set headers then (s1, Inl (FieldsNotFound [js ''slug_url'']))
                 else if js ''location'' \<notin> set headers
                 then (s1, Inl (FieldsNotFound [js ''location'']))
                 else saveIfChanged fb mode filePath
                        (editLoop (fixSlugRow nfd lower) (sr_rows sr) rows (initState s1)))))"

definition fixSlugUrlsPOST ::
  "(jsstring \<Rightarrow> jsstring) \<Rightarrow> (jsstring \<Rightarrow> jsstring) \<Rightarrow> store \<Rightarrow> searchResult list \<Rightarrow> saveMode
     \<Rightarrow> requestError + stats \<times> (fileError + fileReport) list" where
  "fixSlugUrlsPOST nfd lower fb results mode =
     (if length results = 0 then Inl NoSearchResults
      else
        (let filesMap = filesMapOf results
         in if length filesMap = 0 then Inl NoFilesWithRows
            else Inr (forFiles (fixSlugFile nfd lower fb mode) filesMap
                        (initStats (length filesMap)))))"

section \<open>The client's \<open>startReplace\<close> (CSVProcessorPanel)\<close>

record replaceCondition =
  rc_field :: jsstring
  rc_value :: jsstring

text \<open>
  The operations the client sends: the conditions with a field, the value \<open>empty\<close>
  (trimmed, in any case) standing for the empty string.
\<close>

definition buildReplaceOperations ::
  "(jsstring \<Rightarrow> jsstring) \<Rightarrow> replaceCondition list \<Rightarrow> replaceOp list" where
  "buildReplaceOperations lower conds =
     map (\<lambda>c. \<lparr>op_field = rc_field c,
               op_value = (if lower (trim (rc_value c)) = js ''empty'' then [] else rc_value c)\<rparr>)
       (filter (\<lambda>c. rc_field c \<noteq> []) conds)"

definition startReplace ::
  "(jsstring \<Rightarrow> jsstring) \<Rightarrow> replaceCondition list \<Rightarrow> searchResult list \<Rightarrow> bool \<Rightarrow> saveMode
     \<Rightarrow> replaceRequest option" where
  "startReplace lower replaceConditions fileResults hasSearchResults mode =
     (if length (filter (\<lambda>c. rc_field c \<noteq> []) replaceConditions) = 0 then None
      else if length fileResults = 0 \<or> \<not> hasSearchResults then None
      else
        (let results = filter (\<lambda>fr. length (sr_rows fr) > 0) fileResults
         in if length results = 0 then None
            else Some \<lparr>searchResults = results, rr_replaceTargetField = None,
                       rr_replaceValue = None,
                       replaceOperations = Some (buildReplaceOperations lower replaceConditions),
                       rr_saveMode = mode\<rparr>))"

section \<open>Data for evaluating the flows\<close>

text \<open>
  A regular-expression engine for patterns without metacharacters: \<open>/p/\<close> tests for the
  substring \<open>p\<close>, \<open>/p/i\<close> does so after lowercasing both sides. On such patterns it is
  what \<open>RegExp\<close> computes; it instantiates the engine where a flow is evaluated on a
  concrete request.
\<close>

definition literalEngine :: regexEngine where
  "literalEngine p ignoreCase =
     Some (\<lambda>s. if ignoreCase then jsIncludes (lower_latin1 s) (lower_latin1 p)
                else jsIncludes s p)"



definition jobsPath :: jsstring where
  "jobsPath = js ''/data/jobs.csv''"

definition jobsFile :: fileRef where
  "jobsFile = \<lparr>file_path = jobsPath, file_name = js ''jobs.csv''\<rparr>"

definition oneFileStore :: "jsstring \<Rightarrow> row list \<Rightarrow> store" where
  "oneFileStore path rows =
     \<lparr>download = (\<lambda>p. if p = path then Parsed rows else DownloadFailed),
      persistOk = (\<lambda>p. True)\<rparr>"

definition simpleRequest ::
  "jsstring \<Rightarrow> jsstring option \<Rightarrow> jsstring list \<Rightarrow> bool \<Rightarrow> saveMode \<Rightarrow> processRequest" where
  "simpleRequest term repl selected showOnly mode =
     \<lparr>files = [jobsFile],
      searchTerm = Some term, replaceTerm = repl, selectedFields = selected,
      showOnlyMatches = showOnly, req_saveMode = mode, caseSensitive = True,
      wholeWord = False, useRegex = False, advanced = None,
      replaceTargetField = None, replaceValue = None\<rparr>"

definition jobsResult :: "int list \<Rightarrow> searchResult" where
  "jobsResult idxs = \<lparr>sr_filename = js ''jobs.csv'', sr_path = jobsPath, sr_rows = idxs\<rparr>"

definition saoPaulo :: jsstring where
  "saoPaulo = js ''S'' @ [227] @ js ''o Paulo''"

definition salaryRow :: "jsstring \<Rightarrow> jsstring \<Rightarrow> row" where
  "salaryRow slug loc = [(js ''slug_url'', slug), (js ''title'', js ''Engineer''), (js ''location'', loc)]"

definition setOp :: "jsstring \<Rightarrow> jsstring \<Rightarrow> replaceOp" where
  "setOp f v = \<lparr>op_field = f, op_value = v\<rparr>"

definition locationEquals :: "jsstring \<Rightarrow> advancedSearchConfig" where
  "locationEquals v =
     \<lparr>conditions = [\<lparr>cond_field = js ''location'', cond_value = v, cond_mode = Some Equals\<rparr>],
      logic = None, adv_caseSensitive = False\<rparr>"

text \<open>
  Following the claim's words for a slug that ends with \<open>-salary\<close>: the value up to and
  including that suffix, which is the whole value, with a hyphen and the normalized new
  location appended when the latter is not empty.
\<close>

definition spec_recomputed_slug :: "jsstring \<Rightarrow> jsstring \<Rightarrow> jsstring" where
  "spec_recomputed_slug slug normalized =
     (if normalized = [] then slug else slug @ [hyphen] @ normalized)"

definition salaryHeaders :: "jsstring list" where
  "salaryHeaders = [js ''slug_url'', js ''title'', js ''location'']"

text \<open>The row as the operations of the replace endpoint leave it, before the slug rule.\<close>

definition afterOperations :: "jsstring list \<Rightarrow> replaceOp list \<Rightarrow> row \<Rightarrow> row" where
  "afterOperations headers ops r = fst (fold (applyOperation headers) ops (r, [], None))"

section \<open>Facts about the string functions\<close>

lemma strip_decomp:
  "s = takeWhile q s @ strip q s @ rev (takeWhile q (rev (dropWhile q s)))"
proof -
  let ?t = "dropWhile q s"
  have "rev ?t = takeWhile q (rev ?t) @ dropWhile q (rev ?t)" by simp
  then have "?t = rev (dropWhile q (rev ?t)) @ rev (takeWhile q (rev ?t))"
    by (metis rev_append rev_rev_ident)
  then have "?t = strip q s @ rev (takeWhile q (rev ?t))" by (simp add: strip_def)
  moreover have "s = takeWhile q s @ ?t" by simp
  ultimately show ?thesis by metis
qed

lemma strip_last: "strip q s \<noteq> [] \<Longrightarrow> \<not> q (last (strip q s))"
  unfolding strip_def
  by (metis hd_dropWhile hd_rev rev_is_Nil_conv rev_rev_ident)

lemma strip_hd: 
  assumes "strip q s \<noteq> []" shows "\<not> q (hd (strip q s))"
proof -
  let ?t = "dropWhile q s"
  have t: "?t = strip q s @ rev (takeWhile q (rev ?t))"
    using strip_decomp[of s q] by (metis append_eq_append_conv append.assoc same_append_eq takeWhile_dropWhile_id)
  have "?t \<noteq> []"
  proof
    assume "?t = []"
    then have "strip q s = []" by (metis dropWhile.simps(1) rev.simps(1) strip_def)
    with assms show False by simp
  qed
  then have "\<not> q (hd ?t)" by (rule hd_dropWhile)
  moreover have "hd ?t = hd (strip q s)" using t assms by (metis hd_append2)
  ultimately show ?thesis by simp
qed

lemma strip_id: 
  assumes "s = [] \<or> (\<not> q (hd s) \<and> \<not> q (last s))" shows "strip q s = s"
proof (cases "s = []")
  case True then show ?thesis by (simp add: strip_def)
next
  case False
  with assms have h: "\<not> q (hd s)" and l: "\<not> q (last s)" by auto
  from False h have "dropWhile q s = s" by (cases s) auto
  moreover from False l have "dropWhile q (rev s) = rev s" by (cases "rev s") (auto simp: last_rev hd_rev dest: arg_cong[where f=hd])
  ultimately show ?thesis by (simp add: strip_def)
qed

lemma strip_idem: "strip q (strip q s) = strip q s"
  by (rule strip_id) (use strip_hd strip_last in blast)

lemma set_strip: "set (strip q s) \<subseteq> set s"
  unfolding strip_def by (metis set_dropWhileD set_rev subsetI)

lemma strip_empty_iff: "strip q s = [] \<longleftrightarrow> (\<forall>c \<in> set s. q c)"
proof
  assume "strip q s = []"
  then have "\<forall>x \<in> set (dropWhile q s). q x" by (simp add: strip_def)
  then have "dropWhile q s = []" using hd_dropWhile[of q s] by (cases "dropWhile q s") auto  
  then show "\<forall>c \<in> set s. q c" by simp
next
  assume "\<forall>c \<in> set s. q c"
  then have "dropWhile q s = []" by simp
  then show "strip q s = []" by (metis dropWhile.simps(1) rev.simps(1) strip_def)
qed

lemma isActive_blank: "isActive = (\<lambda>c. \<not> isBlank (cond_value c))"
  by (auto simp: isActive_def fun_eq_iff isBlank_def trim_def strip_empty_iff list_all_iff)


lemma noRun_Cons: "noRun p (c # s) \<longleftrightarrow> (s = [] \<or> \<not> (p c \<and> p (hd s))) \<and> noRun p s"
  by (cases s) auto

lemma noRun_append: "noRun p (xs @ ys) \<Longrightarrow> noRun p xs \<and> noRun p ys"
proof (induction xs)
  case Nil then show ?case by simp
next
  case (Cons x xs)
  then show ?case by (cases xs) (auto simp: noRun_Cons)
qed

lemma set_replaceRuns: "set (replaceRuns p r s) \<subseteq> insert r (set s)"
proof (induction p r s rule: replaceRuns.induct)
  case (1 p r) then show ?case by simp
next
  case (2 p r c cs)
  show ?case
  proof (cases "p c")
    case True
    with 2 have "set (replaceRuns p r (dropWhile p cs)) \<subseteq> insert r (set (dropWhile p cs))" by simp
    moreover have "set (dropWhile p cs) \<subseteq> set cs" by (meson set_dropWhileD subsetI)
    ultimately show ?thesis using True by auto
  next
    case False
    with 2 show ?thesis by auto
  qed
qed

lemma replaceRuns_head:
  "s \<noteq> [] \<Longrightarrow> \<not> p (hd s) \<Longrightarrow> replaceRuns p r s \<noteq> [] \<and> hd (replaceRuns p r s) = hd s"
  by (cases s) auto

lemma noRun_replaceRuns: "p r \<Longrightarrow> noRun p (replaceRuns p r s)"
proof (induction p r s rule: replaceRuns.induct)
  case (1 p r) then show ?case by simp
next
  case (2 p r c cs)
  show ?case
  proof (cases "p c")
    case True
    let ?d = "dropWhile p cs"
    have ih: "noRun p (replaceRuns p r ?d)" using 2 True by simp
    have "replaceRuns p r ?d = [] \<or> \<not> p (hd (replaceRuns p r ?d))"
    proof (cases "?d = []")
      case True
      then have "replaceRuns p r ?d = []" by (simp only: replaceRuns.simps)
      then show ?thesis by blast
    next
      case False
      then have "\<not> p (hd ?d)" by (rule hd_dropWhile)
      with False show ?thesis using replaceRuns_head[of ?d p r] by simp
    qed
    with ih True show ?thesis by (auto simp: noRun_Cons)
  next
    case False
    with 2 show ?thesis by (auto simp: noRun_Cons)
  qed
qed

lemma replaceRuns_fixed:
  "noRun p s \<Longrightarrow> (\<And>c. c \<in> set s \<Longrightarrow> p c \<Longrightarrow> c = r) \<Longrightarrow> replaceRuns p r s = s"
proof (induction p r s rule: replaceRuns.induct)
  case (1 p r) then show ?case by simp
next
  case (2 p r c cs)
  have nr: "noRun p cs" using "2.prems"(1) by (simp add: noRun_Cons)
  show ?case
  proof (cases "p c")
    case True
    then have cr: "c = r" using "2.prems"(2) by simp
    have "cs = [] \<or> \<not> p (hd cs)" using "2.prems"(1) True by (simp add: noRun_Cons)
    then have d: "dropWhile p cs = cs" by (cases cs) auto
    have "replaceRuns p r (dropWhile p cs) = dropWhile p cs"
      using "2.IH"(1)[OF True] nr d "2.prems"(2) by simp
    with True cr d show ?thesis by simp
  next
    case False
    have "replaceRuns p r cs = cs" using "2.IH"(2)[OF False] nr "2.prems"(2) by simp
    with False show ?thesis by simp
  qed
qed

lemma replaceRuns_none: "(\<And>c. c \<in> set s \<Longrightarrow> \<not> p c) \<Longrightarrow> replaceRuns p r s = s"
  by (induction s) auto

lemma keep_not_white: "isWordChar c \<or> c = hyphen \<Longrightarrow> \<not> isWhiteSpace c"
  by (auto simp: isWordChar_def isUpperAscii_def hyphen_def isWhiteSpace_def)

lemma slug_not_mark: "isSlugChar c \<Longrightarrow> \<not> isCombiningMark c"
  by (auto simp: isSlugChar_def isWordChar_def isUpperAscii_def hyphen_def isCombiningMark_def)

lemma slug_keep: "isSlugChar c \<Longrightarrow> isWordChar c \<or> c = hyphen"
  by (auto simp: isSlugChar_def)

lemma normalize_chars:
  "c \<in> set (normalizeToKebabCase nfd lower x) \<Longrightarrow> isWordChar c \<or> c = hyphen"
proof (cases "x = []")
  case True
  assume "c \<in> set (normalizeToKebabCase nfd lower x)"
  with True show ?thesis by (simp add: normalizeToKebabCase_def)
next
  case False
  assume c: "c \<in> set (normalizeToKebabCase nfd lower x)"
  let ?s2 = "replaceRuns isWhiteSpace hyphen (lower (filter (\<lambda>c. \<not> isCombiningMark c) (nfd x)))"
  let ?s3 = "filter (\<lambda>c. isWordChar c \<or> c = hyphen) ?s2"
  let ?s4 = "replaceRuns (\<lambda>c. c = hyphen) hyphen ?s3"
  from c False have "c \<in> set (strip (\<lambda>c. c = hyphen) ?s4)"
    by (simp add: normalizeToKebabCase_def trimHyphens_def)
  then have "c \<in> set ?s4" using set_strip by blast
  then have "c = hyphen \<or> c \<in> set ?s3" using set_replaceRuns by blast
  then show ?thesis by auto
qed

lemma normalize_ends:
  "normalizeToKebabCase nfd lower x \<noteq> [] \<Longrightarrow>
     hd (normalizeToKebabCase nfd lower x) \<noteq> hyphen \<and> last (normalizeToKebabCase nfd lower x) \<noteq> hyphen"
  by (cases "x = []")
     (use strip_hd[of "\<lambda>c. c = hyphen"] strip_last[of "\<lambda>c. c = hyphen"]
       in \<open>auto simp: normalizeToKebabCase_def trimHyphens_def\<close>)

lemma normalize_noRun: "noRun (\<lambda>c. c = hyphen) (normalizeToKebabCase nfd lower x)"
proof (cases "x = []")
  case True then show ?thesis by (simp add: normalizeToKebabCase_def)
next
  case False
  let ?h = "\<lambda>c. c = hyphen"
  let ?s3 = "filter (\<lambda>c. isWordChar c \<or> c = hyphen)
     (replaceRuns isWhiteSpace hyphen (lower (filter (\<lambda>c. \<not> isCombiningMark c) (nfd x))))"
  let ?s4 = "replaceRuns ?h hyphen ?s3"
  have "noRun ?h ?s4" by (rule noRun_replaceRuns) simp
  then have "noRun ?h (takeWhile ?h ?s4 @ strip ?h ?s4 @ rev (takeWhile ?h (rev (dropWhile ?h ?s4))))"
    using strip_decomp[of ?s4 ?h] by simp
  then have "noRun ?h (strip ?h ?s4)" using noRun_append by blast
  with False show ?thesis by (simp add: normalizeToKebabCase_def trimHyphens_def)
qed

lemma normalize_isSlug:
  assumes up: "\<And>s c. c \<in> set (lower s) \<Longrightarrow> \<not> isUpperAscii c"
  shows "isSlug (normalizeToKebabCase nfd lower x)"
proof (cases "x = []")
  case True then show ?thesis by (simp add: normalizeToKebabCase_def isSlug_def)
next
  case False
  let ?s1 = "lower (filter (\<lambda>c. \<not> isCombiningMark c) (nfd x))"
  let ?s2 = "replaceRuns isWhiteSpace hyphen ?s1"
  let ?s3 = "filter (\<lambda>c. isWordChar c \<or> c = hyphen) ?s2"
  let ?s4 = "replaceRuns (\<lambda>c. c = hyphen) hyphen ?s3"
  have h: "isSlugChar hyphen" by (simp add: isSlugChar_def)
  have s2: "\<not> isUpperAscii c" if "c \<in> set ?s2" for c
  proof -
    from that have "c = hyphen \<or> c \<in> set ?s1" using set_replaceRuns by blast
    then show ?thesis using up by (auto simp: hyphen_def isUpperAscii_def)
  qed
  have s3: "isSlugChar c" if "c \<in> set ?s3" for c
    using that s2 by (auto simp: isSlugChar_def)
  have s4: "isSlugChar c" if "c \<in> set ?s4" for c
  proof -
    from that have "c = hyphen \<or> c \<in> set ?s3" using set_replaceRuns by blast
    then show ?thesis using s3 h by blast
  qed
  have "isSlugChar c" if "c \<in> set (strip (\<lambda>c. c = hyphen) ?s4)" for c
    using that s4 set_strip by blast
  with False show ?thesis
    by (simp add: normalizeToKebabCase_def trimHyphens_def isSlug_def list_all_iff)
qed

lemma normalize_fixed:
  assumes slug: "isSlug s" and nr: "noRun (\<lambda>c. c = hyphen) s"
    and ends: "s = [] \<or> (hd s \<noteq> hyphen \<and> last s \<noteq> hyphen)"
    and nfd: "nfd s = s" and lower: "lower s = s"
  shows "normalizeToKebabCase nfd lower s = s"
proof (cases "s = []")
  case True then show ?thesis by (simp add: normalizeToKebabCase_def)
next
  case False
  have sl: "\<And>c. c \<in> set s \<Longrightarrow> isSlugChar c" using slug by (simp add: isSlug_def list_all_iff)
  have 1: "filter (\<lambda>c. \<not> isCombiningMark c) s = s" using sl slug_not_mark by (simp add: filter_id_conv)
  have 2: "replaceRuns isWhiteSpace hyphen s = s"
    by (rule replaceRuns_none) (use sl slug_keep keep_not_white in blast)
  have 3: "filter (\<lambda>c. isWordChar c \<or> c = hyphen) s = s" using sl slug_keep by (simp add: filter_id_conv)
  have 4: "replaceRuns (\<lambda>c. c = hyphen) hyphen s = s"
    by (rule replaceRuns_fixed) (use nr in auto)
  have 5: "strip (\<lambda>c. c = hyphen) s = s" by (rule strip_id) (use ends in auto)
  from False show ?thesis
    by (simp add: normalizeToKebabCase_def trimHyphens_def nfd 1 lower 2 3 4 5)
qed


lemma latin1_nfd_slug: "isSlug s \<Longrightarrow> nfd_latin1 s = s"
proof (induction s)
  case Nil then show ?case by (simp add: nfd_latin1_def)
next
  case (Cons c s)
  then have "isSlugChar c" and "isSlug s" by (simp_all add: isSlug_def)
  then have "decompose c = [c]"
    by (auto simp: decompose_def isSlugChar_def isWordChar_def isUpperAscii_def hyphen_def)
  with Cons \<open>isSlug s\<close> show ?case by (simp add: nfd_latin1_def)
qed

lemma latin1_lower_slug: "isSlug s \<Longrightarrow> lower_latin1 s = s"
  by (induction s)
     (auto simp: lower_latin1_def lowerUnit_def isSlug_def isSlugChar_def isWordChar_def
        isUpperAscii_def hyphen_def)

lemma latin1_lower_upper: "c \<in> set (lower_latin1 s) \<Longrightarrow> \<not> isUpperAscii c"
  by (auto simp: lower_latin1_def lowerUnit_def isUpperAscii_def split: if_splits)


lemmas char_defs = isUpperAscii_def isCombiningMark_def isWhiteSpace_def isWordChar_def hyphen_def

lemmas latin1_defs = nfd_latin1_def lower_latin1_def decompose_def lowerUnit_def


section \<open>Facts about rows and the loops\<close>

lemma get_put: "get (put r f v) g = (if g = f then v else get r g)"
  by (simp add: get_def put_def update_conv')


lemma simpleRow_matched: "fst (simpleRow test sf rf tm r) = test (rowText sf r)"
  by (simp add: simpleRow_def split: option.splits prod.splits)

lemma simpleStep_rows:
  "fs_rows (simpleStep test sf rf tm so r st)
     = fs_rows st @ (if test (rowText sf r) \<or> \<not> so
                     then [fst (snd (simpleRow test sf rf tm r))] else [])"
  using simpleRow_matched[of test sf rf tm r]
  by (cases "simpleRow test sf rf tm r")
     (auto simp: simpleStep_def Let_def pushRow_def countRow_def countMatch_def
        countReplacements_def)

lemma simpleLoop_rows:
  "fs_rows (fold (simpleStep test sf rf tm so) rows st)
     = fs_rows st @ map (\<lambda>r. fst (snd (simpleRow test sf rf tm r)))
                      (filter (\<lambda>r. test (rowText sf r) \<or> \<not> so) rows)"
  by (induction rows arbitrary: st) (simp_all add: simpleStep_rows)

lemma simpleStep_files:
  "processedFiles (fs_stats (simpleStep test sf rf tm so r st)) = processedFiles (fs_stats st)"
  by (cases "simpleRow test sf rf tm r")
     (auto simp: simpleStep_def Let_def pushRow_def countRow_def countMatch_def
        countReplacements_def)

lemma simpleLoop_files:
  "processedFiles (fs_stats (fold (simpleStep test sf rf tm so) rows st))
     = processedFiles (fs_stats st)"
  by (induction rows arbitrary: st) (simp_all add: simpleStep_files)

lemma advancedStep_files:
  "advancedStep engine lower adv headers repl so r st = Inr st'
     \<Longrightarrow> processedFiles (fs_stats st') = processedFiles (fs_stats st)"
  by (auto simp: advancedStep_def Let_def pushRow_def countRow_def countMatch_def
        countReplacements_def split: sum.splits prod.splits if_splits)

lemma advancedLoop_files:
  "processedFiles (fs_stats (fst (advancedLoop (advancedStep engine lower adv headers repl so) rows st)))
     = processedFiles (fs_stats st)"
proof (induction rows arbitrary: st)
  case Nil then show ?case by simp
next
  case (Cons r rows)
  show ?case
  proof (cases "advancedStep engine lower adv headers repl so r st")
    case (Inl e) then show ?thesis by simp
  next
    case (Inr st')
    then show ?thesis using Cons.IH[of st'] advancedStep_files[OF Inr] by simp
  qed
qed

lemma editStep_files:
  "processedFiles (fs_stats (editStep edit idxs ir st)) = processedFiles (fs_stats st)"
  by (auto simp: editStep_def Let_def pushRow_def countRow_def countReplacements_def
        split: prod.splits)

lemma editLoop_files:
  "processedFiles (fs_stats (editLoop edit idxs rows st)) = processedFiles (fs_stats st)"
proof -
  have "processedFiles (fs_stats (fold (editStep edit idxs) irs st)) = processedFiles (fs_stats st)"
    for irs by (induction irs arbitrary: st) (simp_all add: editStep_files)
  then show ?thesis by (simp add: editLoop_def)
qed

text \<open>The definitions unfolded when a flow is evaluated on a concrete request.\<close>

lemmas string_defs = js_def startsWith_def endsWith_def jsIncludes_def trim_def strip_def

lemmas state_defs = initState_def pushRow_def countRow_def countMatch_def countReplacements_def
  addTotalRows_def countFile_def report_def editReport_def initStats_def persist_def
  countMatches_def

lemmas sample_defs = jobsPath_def jobsFile_def jobsResult_def saoPaulo_def salaryRow_def
  setOp_def locationEquals_def oneFileStore_def simpleRequest_def literalEngine_def

lemmas process_defs = processFileSimple_def simpleStep_def simpleRow_def rowText_def
  replaceFieldsOf_def replaceModeTerm_def searchPattern_def escapeRegExp_def isRegexSpecial_def
  headersOf_def get_def put_def event_def

lemmas advanced_defs = processFileAdvanced_def advancedStep_def advancedRow_def
  foundEvents_def rowMatchesAdvanced_def buildFieldMatcher_def isActive_def

lemmas edit_defs = replaceFile_def fixSlugFile_def saveIfChanged_def editLoop_def editStep_def
  targeted_def replaceRow_def applyOperation_def updateSlugUrl_def fixSlugRow_def
  normalizeToKebabCase_def trimHyphens_def enumerate_eq_zip Let_def

section \<open>Facts about the loop of the replace and fix endpoints\<close>

lemma targeted_iff: "targeted idxs i \<longleftrightarrow> int (Suc i) \<in> set idxs"
proof
  assume "targeted idxs i"
  then obtain k where "k \<in> set idxs" "int i = k - 1" by (auto simp: targeted_def)
  then show "int (Suc i) \<in> set idxs" by (simp add: algebra_simps)
next
  assume "int (Suc i) \<in> set idxs"
  then have "int (Suc i) - 1 \<in> (\<lambda>k. k - 1) ` set idxs" by (rule imageI)
  then show "targeted idxs i" by (simp add: targeted_def)
qed

lemma editStep_rows:
  "fs_rows (editStep edit idxs ir st)
     = fs_rows st @ [if targeted idxs (fst ir) then fst (edit (snd ir)) else snd ir]"
  by (cases ir)
     (auto simp: editStep_def Let_def pushRow_def countRow_def countReplacements_def
        split: prod.splits)

lemma editFold_rows:
  "fs_rows (fold (editStep edit idxs) irs st)
     = fs_rows st @ map (\<lambda>ir. if targeted idxs (fst ir) then fst (edit (snd ir)) else snd ir) irs"
  by (induction irs arbitrary: st) (simp_all add: editStep_rows)

lemma editLoop_rows:
  "fs_rows (editLoop edit idxs rows (initState s))
     = map (\<lambda>ir. if targeted idxs (fst ir) then fst (edit (snd ir)) else snd ir)
         (enumerate 0 rows)"
  by (simp add: editLoop_def editFold_rows initState_def)

lemma editLoop_length: "length (fs_rows (editLoop edit idxs rows (initState s))) = length rows"
  by (simp add: editLoop_rows)

lemma editLoop_nth:
  "i < length rows \<Longrightarrow>
     fs_rows (editLoop edit idxs rows (initState s)) ! i
       = (if int (Suc i) \<in> set idxs then fst (edit (rows ! i)) else rows ! i)"
  by (simp add: editLoop_rows nth_enumerate_eq targeted_iff)

lemma applyOperation_get:
  "f \<noteq> op_field op \<Longrightarrow> get (fst (applyOperation headers op st)) f = get (fst st) f"
  by (cases st) (auto simp: applyOperation_def Let_def get_put)

lemma applyOperations_get:
  "f \<notin> set (map op_field ops) \<Longrightarrow>
     get (fst (fold (applyOperation headers) ops st)) f = get (fst st) f"
proof (induction ops arbitrary: st)
  case Nil then show ?case by simp
next
  case (Cons op ops)
  then have "f \<noteq> op_field op" and "f \<notin> set (map op_field ops)" by auto
  then show ?case using Cons.IH[of "applyOperation headers op st"] applyOperation_get[of f op headers st]
    by simp
qed

lemma updateSlugUrl_get:
  "f \<noteq> js ''slug_url'' \<Longrightarrow> get (fst (updateSlugUrl nfd lower headers st)) f = get (fst st) f"
  by (cases st)
     (auto simp: updateSlugUrl_def Let_def get_put split: option.splits prod.splits)

lemma replaceRow_frame:
  "f \<notin> set (map op_field ops) \<Longrightarrow> f \<noteq> js ''slug_url'' \<Longrightarrow>
     get (fst (replaceRow nfd lower headers ops r)) f = get r f"
  using applyOperations_get[of f ops headers "(r, [], None)"]
  by (simp add: replaceRow_def updateSlugUrl_get)

lemma fixSlugRow_frame:
  "f \<noteq> js ''slug_url'' \<Longrightarrow> get (fst (fixSlugRow nfd lower r)) f = get r f"
  by (auto simp: fixSlugRow_def Let_def get_put)

lemma replaceFile_rows:
  assumes "replaceFile nfd lower fb ops mode s (path, sr) = (s', Inr rep)"
    and "download fb path = Parsed rows"
  shows "rep_rows rep = fs_rows (editLoop (replaceRow nfd lower (headersOf rows) ops) (sr_rows sr)
                                   rows (initState (addTotalRows (length rows) s)))"
  using assms
  by (auto simp: replaceFile_def saveIfChanged_def persist_def report_def editReport_def Let_def
        split: if_splits)

lemma fixSlugFile_rows:
  assumes "fixSlugFile nfd lower fb mode s (path, sr) = (s', Inr rep)"
    and "download fb path = Parsed rows"
  shows "rep_rows rep = fs_rows (editLoop (fixSlugRow nfd lower) (sr_rows sr)
                                   rows (initState (addTotalRows (length rows) s)))"
  using assms
  by (auto simp: fixSlugFile_def saveIfChanged_def persist_def report_def editReport_def Let_def
        split: if_splits)

section \<open>Facts about the fix of the slug URLs\<close>

lemma endsWith_iff: "endsWith s t \<longleftrightarrow> (\<exists>p. s = p @ t)"
proof
  assume "endsWith s t"
  then have "length t \<le> length s" and "drop (length s - length t) s = t"
    by (simp_all add: endsWith_def)
  then have "s = take (length s - length t) s @ t" by (metis append_take_drop_id)
  then show "\<exists>p. s = p @ t" ..
next
  assume "\<exists>p. s = p @ t"
  then show "endsWith s t" by (auto simp: endsWith_def)
qed

lemma endsWith_append: "endsWith s t \<Longrightarrow> endsWith (s @ x) (t @ x)"
  by (auto simp: endsWith_iff)

lemma trim_fixed: "s \<noteq> [] \<Longrightarrow> \<not> isWhiteSpace (hd s) \<Longrightarrow> \<not> isWhiteSpace (last s) \<Longrightarrow> trim s = s"
  by (simp add: trim_def strip_id)

lemma trim_hd: "trim s \<noteq> [] \<Longrightarrow> \<not> isWhiteSpace (hd (trim s))"
  by (simp add: trim_def strip_hd)

lemma normalize_last_not_white:
  assumes "normalizeToKebabCase nfd lower x \<noteq> []"
  shows "\<not> isWhiteSpace (last (normalizeToKebabCase nfd lower x))"
proof -
  have "last (normalizeToKebabCase nfd lower x) \<in> set (normalizeToKebabCase nfd lower x)"
    using assms by simp
  then show ?thesis using normalize_chars keep_not_white by blast
qed

lemma salary_suffix: "js ''-salary-'' = js ''-salary'' @ [hyphen]"
  by (simp add: js_def hyphen_def)

lemma slug_location_keys: "js ''slug_url'' \<noteq> js ''location''"
  by (simp add: js_def)

lemma fixSlugRow_idem:
  "fixSlugRow nfd lower (fst (fixSlugRow nfd lower r)) = (fst (fixSlugRow nfd lower r), [])"
proof -
  let ?cur = "trim (get r (js ''slug_url''))"
  let ?n = "normalizeToKebabCase nfd lower (trim (get r (js ''location'')))"
  let ?new = "?cur @ [hyphen] @ ?n"
  show ?thesis
  proof (cases "endsWith ?cur (js ''-salary'') \<and> ?n \<noteq> []
                  \<and> \<not> endsWith ?cur (js ''-salary-'' @ ?n)")
    case False
    then have "fixSlugRow nfd lower r = (r, [])" by (auto simp: fixSlugRow_def Let_def)
    then show ?thesis by simp
  next
    case True
    then have ew: "endsWith ?cur (js ''-salary'')" and n: "?n \<noteq> []" by simp_all
    from True have first: "fst (fixSlugRow nfd lower r) = put r (js ''slug_url'') ?new"
      by (simp add: fixSlugRow_def Let_def)
    have cur_ne: "?cur \<noteq> []" using ew by (auto simp: endsWith_iff js_def)
    have hd_new: "\<not> isWhiteSpace (hd ?new)" using cur_ne trim_hd[of "get r (js ''slug_url'')"] by simp
    have last_new: "\<not> isWhiteSpace (last ?new)" using n normalize_last_not_white[of nfd lower] by simp
    have tr: "trim ?new = ?new" by (rule trim_fixed) (use cur_ne hd_new last_new in auto)
    have slug': "get (put r (js ''slug_url'') ?new) (js ''slug_url'') = ?new" by (simp add: get_put)
    have loc': "get (put r (js ''slug_url'') ?new) (js ''location'') = get r (js ''location'')"
      using slug_location_keys by (simp add: get_put)
    have "endsWith ?new (js ''-salary'' @ ([hyphen] @ ?n))" using ew by (rule endsWith_append)
    then have guard: "endsWith ?new (js ''-salary-'' @ ?n)" by (simp add: salary_suffix)
    have "fixSlugRow nfd lower (put r (js ''slug_url'') ?new) = (put r (js ''slug_url'') ?new, [])"
      unfolding fixSlugRow_def slug' loc' tr using guard by (simp add: Let_def)
    then show ?thesis by (simp add: first)
  qed
qed

lemma fixSlugRow_keys:
  "js ''slug_url'' \<in> set (map fst r) \<Longrightarrow> map fst (fst (fixSlugRow nfd lower r)) = map fst r"
  by (auto simp: fixSlugRow_def Let_def put_def update_keys)

lemma editStep_replacements:
  "fs_replacements (editStep edit idxs ir st)
     = fs_replacements st + (if targeted idxs (fst ir) then length (snd (edit (snd ir))) else 0)"
  by (cases ir)
     (auto simp: editStep_def Let_def pushRow_def countRow_def countReplacements_def
        split: prod.splits)

lemma editFold_no_replacements:
  "(\<And>ir. ir \<in> set irs \<Longrightarrow> targeted idxs (fst ir) \<Longrightarrow> snd (edit (snd ir)) = []) \<Longrightarrow>
     fs_replacements (fold (editStep edit idxs) irs st) = fs_replacements st"
  by (induction irs arbitrary: st) (simp_all add: editStep_replacements)

lemma fixLoop_rows_idem:
  "fs_rows (editLoop (fixSlugRow nfd lower) idxs
      (fs_rows (editLoop (fixSlugRow nfd lower) idxs rows (initState s))) (initState s'))
   = fs_rows (editLoop (fixSlugRow nfd lower) idxs rows (initState s))"
proof (rule nth_equalityI)
  show "length (fs_rows (editLoop (fixSlugRow nfd lower) idxs
      (fs_rows (editLoop (fixSlugRow nfd lower) idxs rows (initState s))) (initState s')))
    = length (fs_rows (editLoop (fixSlugRow nfd lower) idxs rows (initState s)))"
    by (simp add: editLoop_length)
next
  fix i
  assume "i < length (fs_rows (editLoop (fixSlugRow nfd lower) idxs
      (fs_rows (editLoop (fixSlugRow nfd lower) idxs rows (initState s))) (initState s')))"
  then have i: "i < length rows" by (simp add: editLoop_length)
  then show "fs_rows (editLoop (fixSlugRow nfd lower) idxs
      (fs_rows (editLoop (fixSlugRow nfd lower) idxs rows (initState s))) (initState s')) ! i
    = fs_rows (editLoop (fixSlugRow nfd lower) idxs rows (initState s)) ! i"
    by (simp add: editLoop_nth editLoop_length fixSlugRow_idem)
qed

lemma fixLoop_second_no_replacements:
  "fs_replacements (editLoop (fixSlugRow nfd lower) idxs
      (fs_rows (editLoop (fixSlugRow nfd lower) idxs rows (initState s))) (initState s')) = 0"
proof -
  let ?rows1 = "fs_rows (editLoop (fixSlugRow nfd lower) idxs rows (initState s))"
  have "snd (fixSlugRow nfd lower (snd ir)) = []"
    if "ir \<in> set (enumerate 0 ?rows1)" and "targeted idxs (fst ir)" for ir
  proof -
    from that(1) have i: "fst ir < length rows" and r: "snd ir = ?rows1 ! fst ir"
      by (auto simp: in_set_enumerate_eq editLoop_length)
    from that(2) have "int (Suc (fst ir)) \<in> set idxs" by (simp add: targeted_iff)
    with i r have "snd ir = fst (fixSlugRow nfd lower (rows ! fst ir))"
      by (simp add: editLoop_nth)
    then show ?thesis by (simp add: fixSlugRow_idem)
  qed
  then have "fs_replacements (fold (editStep (fixSlugRow nfd lower) idxs) (enumerate 0 ?rows1)
               (initState s')) = fs_replacements (initState s')"
    by (rule editFold_no_replacements)
  then show ?thesis by (simp add: editLoop_def initState_def)
qed

lemma fixLoop_headers:
  assumes "js ''slug_url'' \<in> set (headersOf rows)"
  shows "headersOf (fs_rows (editLoop (fixSlugRow nfd lower) idxs rows (initState s))) = headersOf rows"
proof (cases rows)
  case Nil then show ?thesis by (simp add: editLoop_rows)
next
  case (Cons r rs)
  then have k: "js ''slug_url'' \<in> set (map fst r)" using assms by (simp add: headersOf_def)
  have "fs_rows (editLoop (fixSlugRow nfd lower) idxs rows (initState s))
          = (if targeted idxs 0 then fst (fixSlugRow nfd lower r) else r)
            # map (\<lambda>ir. if targeted idxs (fst ir) then fst (fixSlugRow nfd lower (snd ir)) else snd ir)
                (enumerate (Suc 0) rs)"
    by (simp add: editLoop_rows Cons)
  then show ?thesis using k Cons by (simp add: headersOf_def fixSlugRow_keys)
qed

section \<open>Facts about the replace operations\<close>

lemma applyOperation_location:
  "locationTracked st \<Longrightarrow> locationTracked (applyOperation headers op st)"
  by (cases st)
     (auto simp: locationTracked_def applyOperation_def Let_def get_put split: option.splits)

lemma applyOperations_location:
  "locationTracked st \<Longrightarrow> locationTracked (fold (applyOperation headers) ops st)"
  by (induction ops arbitrary: st) (simp_all add: applyOperation_location)

lemma applyOperations_keep:
  assumes "\<And>op. op \<in> set ops \<Longrightarrow> op_field op = f \<Longrightarrow> op_value op = v"
    and "get (fst st) f = v"
  shows "get (fst (fold (applyOperation headers) ops st)) f = v"
  using assms
proof (induction ops arbitrary: st)
  case Nil then show ?case by simp
next
  case (Cons op ops)
  have "get (fst (applyOperation headers op st)) f = v"
  proof (cases "op_field op = f")
    case True
    then have "op_value op = v" using Cons.prems(1) by simp
    with True Cons.prems(2) show ?thesis
      by (cases st) (auto simp: applyOperation_def Let_def get_put)
  next
    case False
    then show ?thesis using Cons.prems(2) applyOperation_get[of f op headers st] by auto
  qed
  then show ?case using Cons.IH[of "applyOperation headers op st"] Cons.prems(1) by simp
qed

lemma updateSlugUrl_empty:
  "get (fst st) (js ''slug_url'') = [] \<Longrightarrow>
     get (fst (updateSlugUrl nfd lower headers st)) (js ''slug_url'') = []"
  by (cases st)
     (auto simp: updateSlugUrl_def Let_def trim_def strip_def jsIncludes_def js_def startsWith_def
        split: option.splits)

lemma startReplace_operations:
  "startReplace lower conds fileResults has mode = Some req
     \<Longrightarrow> replaceOperations req = Some (buildReplaceOperations lower conds)
         \<and> buildReplaceOperations lower conds \<noteq> []"
  by (auto simp: startReplace_def buildReplaceOperations_def Let_def split: if_splits)

lemma startReplace_operationsOf:
  "startReplace lower conds fileResults has mode = Some req
     \<Longrightarrow> operationsOf req = Inr (buildReplaceOperations lower conds)"
  using startReplace_operations[of lower conds fileResults has mode req]
  by (auto simp: operationsOf_def split: list.splits)

section \<open>Facts about the two simple-mode handlers\<close>







section \<open>Facts about the slug rule of the replace endpoint\<close>

lemma indexOf_first:
  "indexOf s t = Some k \<Longrightarrow>
     take (length t) (drop k s) = t \<and> (\<forall>j < k. take (length t) (drop j s) \<noteq> t)"
proof (induction s arbitrary: k)
  case Nil then show ?case by (auto split: if_splits)
next
  case (Cons c cs)
  show ?case
  proof (cases "startsWith (c # cs) t")
    case True
    with Cons.prems show ?thesis by (simp add: startsWith_def)
  next
    case False
    with Cons.prems obtain i where i: "indexOf cs t = Some i" and k: "k = Suc i"
      by (auto split: option.splits)
    from Cons.IH[OF i] have a: "take (length t) (drop i cs) = t"
      and b: "\<forall>j < i. take (length t) (drop j cs) \<noteq> t" by simp_all
    have "take (length t) (drop j (c # cs)) \<noteq> t" if "j < Suc i" for j
    proof (cases j)
      case 0 then show ?thesis using False by (simp add: startsWith_def)
    next
      case (Suc j') then show ?thesis using that b by simp
    qed
    with a k show ?thesis by simp
  qed
qed

lemma applyOperation_flag:
  "snd (snd st) \<noteq> None \<Longrightarrow> snd (snd (applyOperation headers op st)) \<noteq> None"
  by (cases st) (auto simp: applyOperation_def Let_def)

lemma applyOperations_flag:
  "snd (snd st) \<noteq> None \<Longrightarrow> snd (snd (fold (applyOperation headers) ops st)) \<noteq> None"
proof (induction ops arbitrary: st)
  case Nil then show ?case by simp
next
  case (Cons op ops)
  from Cons.prems have "snd (snd (applyOperation headers op st)) \<noteq> None"
    by (rule applyOperation_flag)
  then have "snd (snd (fold (applyOperation headers) ops (applyOperation headers op st))) \<noteq> None"
    by (rule Cons.IH)
  then show ?case by simp
qed

lemma applyOperation_sets_flag:
  "op_field op = js ''location'' \<Longrightarrow> js ''location'' \<in> set headers \<Longrightarrow>
   get (fst st) (js ''location'') \<noteq> op_value op \<Longrightarrow>
     snd (snd (applyOperation headers op st)) \<noteq> None"
  by (cases st) (auto simp: applyOperation_def Let_def)

lemma location_change_remembered:
  assumes "ops = pre @ op # post" and "op_field op = js ''location''"
    and "js ''location'' \<in> set headers"
    and "get (afterOperations headers pre r) (js ''location'') \<noteq> op_value op"
  shows "\<exists>old evs. fold (applyOperation headers) ops (r, [], None)
           = (afterOperations headers ops r, evs,
              Some (old, get (afterOperations headers ops r) (js ''location'')))"
proof -
  let ?st = "fold (applyOperation headers) pre (r, [], None)"
  have "snd (snd (applyOperation headers op ?st)) \<noteq> None"
    using assms(2-4) by (intro applyOperation_sets_flag) (simp_all add: afterOperations_def)
  then have "snd (snd (fold (applyOperation headers) post (applyOperation headers op ?st))) \<noteq> None"
    by (rule applyOperations_flag)
  then have f: "snd (snd (fold (applyOperation headers) ops (r, [], None))) \<noteq> None"
    by (simp add: assms(1))
  have t: "locationTracked (fold (applyOperation headers) ops (r, [], None))"
    by (rule applyOperations_location) (simp add: locationTracked_def)
  obtain r1 evs loc where e: "fold (applyOperation headers) ops (r, [], None) = (r1, evs, loc)"
    by (cases "fold (applyOperation headers) ops (r, [], None)") auto
  with f obtain old new where l: "loc = Some (old, new)" by auto
  from t e l have "new = get r1 (js ''location'')" by (simp add: locationTracked_def)
  moreover have "r1 = afterOperations headers ops r" by (simp add: afterOperations_def e)
  ultimately show ?thesis using e l by auto
qed

lemma salary_length: "length (js ''-salary'') = 7"
  by (simp add: js_def)

section \<open>Facts about the last operation on a field\<close>

lemma applyOperations_last:
  assumes "ops = pre @ op # post" and "op_field op = f" and "f \<in> set headers"
    and "\<And>o'. o' \<in> set post \<Longrightarrow> op_field o' = f \<Longrightarrow> op_value o' = op_value op"
  shows "get (fst (fold (applyOperation headers) ops st)) f = op_value op"
proof -
  let ?st = "fold (applyOperation headers) pre st"
  have "get (fst (applyOperation headers op ?st)) f = op_value op"
    using assms(2,3) by (cases ?st) (auto simp: applyOperation_def Let_def get_put)
  then have "get (fst (fold (applyOperation headers) post (applyOperation headers op ?st))) f
               = op_value op"
    using assms(4) by (intro applyOperations_keep) auto
  then show ?thesis by (simp add: assms(1))
qed

lemma replaceRow_last_cleared:
  assumes "ops = pre @ op # post" and "op_field op = f" and "op_value op = []"
    and "f \<in> set headers"
    and "\<And>o'. o' \<in> set post \<Longrightarrow> op_field o' = f \<Longrightarrow> op_value o' = []"
  shows "get (fst (replaceRow nfd lower headers ops r)) f = []"
proof -
  have "get (fst (fold (applyOperation headers) ops (r, [], None))) f = op_value op"
    using assms(1,2,4) by (rule applyOperations_last) (simp add: assms(3,5))
  then have a: "get (fst (fold (applyOperation headers) ops (r, [], None))) f = []"
    by (simp add: assms(3))
  show ?thesis
  proof (cases "f = js ''slug_url''")
    case True
    then show ?thesis using a by (simp add: replaceRow_def updateSlugUrl_empty)
  next
    case False
    then show ?thesis using a by (simp add: replaceRow_def updateSlugUrl_get)
  qed
qed

lemma buildReplaceOperations_split:
  "rc_field c \<noteq> [] \<Longrightarrow>
     buildReplaceOperations lower (pre @ c # post)
       = buildReplaceOperations lower pre
         @ \<lparr>op_field = rc_field c,
            op_value = (if lower (trim (rc_value c)) = js ''empty'' then [] else rc_value c)\<rparr>
         # buildReplaceOperations lower post"
  by (simp add: buildReplaceOperations_def)

section \<open>The slug normalizer is idempotent\<close>

text \<open>
  Claim C4. Normalizing a normalized string changes nothing:
  \<open>normalizeToKebabCase (normalizeToKebabCase x) = normalizeToKebabCase x\<close> for every string
  \<open>x\<close>. The two runtime built-ins are parameters of the model; what the proof uses of
  them holds of the real ones: on a string over \<open>[a-z0-9_-]\<close> the canonical decomposition
  and the lowercasing change nothing, and a lowercased string has no letter of \<open>A-Z\<close>.
\<close>

theorem normalizeToKebabCase_idempotent:
  assumes nfd_slug: "\<And>s. isSlug s \<Longrightarrow> nfd s = s"
    and lower_slug: "\<And>s. isSlug s \<Longrightarrow> lower s = s"
    and lower_upper: "\<And>s c. c \<in> set (lower s) \<Longrightarrow> \<not> isUpperAscii c"
  shows "normalizeToKebabCase nfd lower (normalizeToKebabCase nfd lower x)
           = normalizeToKebabCase nfd lower x"
proof -
  let ?out = "normalizeToKebabCase nfd lower x"
  have slug: "isSlug ?out" using lower_upper by (rule normalize_isSlug)
  have ends: "?out = [] \<or> (hd ?out \<noteq> hyphen \<and> last ?out \<noteq> hyphen)"
    using normalize_ends by blast
  show ?thesis
    using slug normalize_noRun ends nfd_slug[OF slug] lower_slug[OF slug]
    by (rule normalize_fixed)
qed


theorem normalizeToKebabCase_idempotent_witness:
  "normalizeToKebabCase nfd_latin1 lower_latin1 (js ''S'' @ [227] @ js ''o  Paulo!'') = js ''sao-paulo'' \<and>
   normalizeToKebabCase nfd_latin1 lower_latin1
     (normalizeToKebabCase nfd_latin1 lower_latin1 (js ''S'' @ [227] @ js ''o  Paulo!'')) = js ''sao-paulo''"
proof -
  have e: "normalizeToKebabCase nfd_latin1 lower_latin1 (js ''S'' @ [227] @ js ''o  Paulo!'') = js ''sao-paulo''"
    by (simp add: normalizeToKebabCase_def js_def latin1_defs char_defs trimHyphens_def strip_def)
  show ?thesis
    using normalizeToKebabCase_idempotent[of nfd_latin1 lower_latin1 "js ''S'' @ [227] @ js ''o  Paulo!''",
        OF latin1_nfd_slug latin1_lower_slug latin1_lower_upper] e
    by simp
qed

section \<open>Blank conditions impose no constraint\<close>

text \<open>
  Claim C6. In advanced mode the conditions whose value is empty or consists only of
  whitespace are excluded from the evaluation: the row predicate gives the same result as
  on the configuration without them. If every condition is blank, as in an AND search
  with the single condition value \<open>''\<close>, every row is reported as a match.
\<close>

theorem blank_conditions_neutral:
  "rowMatchesAdvanced engine lower r headers adv
     = rowMatchesAdvanced engine lower r headers
         (adv\<lparr>conditions := filter (\<lambda>c. \<not> isBlank (cond_value c)) (conditions adv)\<rparr>)
   \<and> ((\<forall>c \<in> set (conditions adv). isBlank (cond_value c))
        \<longrightarrow> rowMatchesAdvanced engine lower r headers adv = Inr (True, []))"
proof -
  have 1: "rowMatchesAdvanced engine lower r headers adv
     = rowMatchesAdvanced engine lower r headers
         (adv\<lparr>conditions := filter (\<lambda>c. \<not> isBlank (cond_value c)) (conditions adv)\<rparr>)"
    unfolding rowMatchesAdvanced_def by (simp add: isActive_blank)
  have 2: "rowMatchesAdvanced engine lower r headers adv = Inr (True, [])"
    if "\<forall>c \<in> set (conditions adv). isBlank (cond_value c)"
  proof -
    from that have "filter isActive (conditions adv) = []"
      by (simp add: filter_empty_conv isActive_blank)
    then show ?thesis by (simp add: rowMatchesAdvanced_def)
  qed
  from 1 2 show ?thesis by blast
qed


theorem blank_conditions_neutral_witness:
  "isBlank (cond_value \<lparr>cond_field = js ''state'', cond_value = [], cond_mode = Some Equals\<rparr>) \<and>
   rowMatchesAdvanced (\<lambda>p i. None) lower_latin1 [(js ''state'', js ''Ohio'')] [js ''state'']
      \<lparr>conditions = [\<lparr>cond_field = js ''state'', cond_value = [], cond_mode = Some Equals\<rparr>],
       logic = Some AND, adv_caseSensitive = False\<rparr> = Inr (True, [])"
  using blank_conditions_neutral[where engine = "\<lambda>p i. None" and lower = lower_latin1
      and r = "[(js ''state'', js ''Ohio'')]" and headers = "[js ''state'']"
      and adv = "\<lparr>conditions = [\<lparr>cond_field = js ''state'', cond_value = [], cond_mode = Some Equals\<rparr>],
       logic = Some AND, adv_caseSensitive = False\<rparr>", THEN conjunct2]
  by (simp add: isBlank_def)

section \<open>Simple mode: what a replacement does, handler by handler\<close>




section \<open>When the output of a file is persisted\<close>

text \<open>
  Claim C3, as amended. In the replace and fix-slug-URLs endpoints the output of a
  processed file is persisted, in any save mode, exactly when the file's replacement count
  is positive: a file without a replacement produces no artifact. In the process endpoint
  (simple and advanced mode) the output of a processed file is persisted exactly when the
  request is in replace mode, whether or not a value changed.
\<close>

theorem output_persisted_when:
  "(\<forall>s' rep. replaceFile nfd lower fb ops mode s entry = (s', Inr rep)
       \<longrightarrow> (rep_artifact rep \<noteq> None \<longleftrightarrow> rep_replacements rep > 0))
   \<and> (\<forall>s' rep. fixSlugFile nfd lower fb mode s entry = (s', Inr rep)
       \<longrightarrow> (rep_artifact rep \<noteq> None \<longleftrightarrow> rep_replacements rep > 0))
   \<and> (\<forall>s' rep. processFileSimple engine fb req tm s f = (s', Inr rep)
       \<longrightarrow> (rep_artifact rep \<noteq> None \<longleftrightarrow> replaceModeTerm (replaceTerm req) \<noteq> None))
   \<and> (\<forall>s' rep. processFileAdvanced engine lower fb adv repl so mode s f = (s', Inr rep)
       \<longrightarrow> (rep_artifact rep \<noteq> None \<longleftrightarrow> repl \<noteq> None))"
proof (intro conjI allI impI)
  fix s' rep
  assume "replaceFile nfd lower fb ops mode s entry = (s', Inr rep)"
  then show "rep_artifact rep \<noteq> None \<longleftrightarrow> rep_replacements rep > 0"
    by (auto simp: replaceFile_def saveIfChanged_def persist_def report_def editReport_def Let_def
          split: prod.splits fileInput.splits if_splits)
next
  fix s' rep
  assume "fixSlugFile nfd lower fb mode s entry = (s', Inr rep)"
  then show "rep_artifact rep \<noteq> None \<longleftrightarrow> rep_replacements rep > 0"
    by (auto simp: fixSlugFile_def saveIfChanged_def persist_def report_def editReport_def Let_def
          split: prod.splits fileInput.splits if_splits)
next
  fix s' rep
  assume "processFileSimple engine fb req tm s f = (s', Inr rep)"
  then show "rep_artifact rep \<noteq> None \<longleftrightarrow> replaceModeTerm (replaceTerm req) \<noteq> None"
    by (auto simp: processFileSimple_def persist_def report_def Let_def
          split: fileInput.splits option.splits if_splits)
next
  fix s' rep
  assume "processFileAdvanced engine lower fb adv repl so mode s f = (s', Inr rep)"
  then show "rep_artifact rep \<noteq> None \<longleftrightarrow> repl \<noteq> None"
    by (auto simp: processFileAdvanced_def persist_def report_def Let_def
          split: fileInput.splits option.splits if_splits prod.splits)
qed

theorem output_persisted_when_witness:
  "replaceFile nfd_latin1 lower_latin1
      (oneFileStore jobsPath [salaryRow (js ''engineer-salary'') (js ''Old'')])
      [setOp (js ''location'') (js ''Old'')] Overwrite (initStats 1) (jobsPath, jobsResult [1])
    = (\<lparr>totalFiles = 1, processedFiles = 0, totalRows = 1, processedRows = 1,
         totalMatches = 0, totalReplacements = 0\<rparr>,
       Inr \<lparr>rep_rows = [salaryRow (js ''engineer-salary'') (js ''Old'')],
            rep_matches = 0, rep_replacements = 0, rep_artifact = None\<rparr>)
   \<and> (rep_artifact \<lparr>rep_rows = [salaryRow (js ''engineer-salary'') (js ''Old'')],
            rep_matches = 0, rep_replacements = 0, rep_artifact = None\<rparr> \<noteq> None)
       = (rep_replacements \<lparr>rep_rows = [salaryRow (js ''engineer-salary'') (js ''Old'')],
            rep_matches = 0, rep_replacements = 0, rep_artifact = None\<rparr> > 0)"
proof -
  have e: "replaceFile nfd_latin1 lower_latin1
      (oneFileStore jobsPath [salaryRow (js ''engineer-salary'') (js ''Old'')])
      [setOp (js ''location'') (js ''Old'')] Overwrite (initStats 1) (jobsPath, jobsResult [1])
    = (\<lparr>totalFiles = 1, processedFiles = 0, totalRows = 1, processedRows = 1,
         totalMatches = 0, totalReplacements = 0\<rparr>,
       Inr \<lparr>rep_rows = [salaryRow (js ''engineer-salary'') (js ''Old'')],
            rep_matches = 0, rep_replacements = 0, rep_artifact = None\<rparr>)"
    by (simp add: sample_defs edit_defs process_defs state_defs string_defs)
  from output_persisted_when[THEN conjunct1, rule_format, OF e] e show ?thesis by blast
qed

text \<open>
  The claim as stated fails in the process endpoint: a simple-mode request with a
  replacement term on a file without a matching row changes nothing and still writes the
  file, here over the original.
\<close>

theorem persist_without_change_counterexample:
  "processFileSimple literalEngine
      (oneFileStore jobsPath [salaryRow (js ''engineer-salary'') (js ''Old'')])
      (simpleRequest (js ''nurse'') (Some (js ''X'')) [] False Overwrite) (js ''nurse'')
      (initStats 1) jobsFile
    = (\<lparr>totalFiles = 1, processedFiles = 1, totalRows = 1, processedRows = 1,
         totalMatches = 0, totalReplacements = 0\<rparr>,
       Inr \<lparr>rep_rows = [salaryRow (js ''engineer-salary'') (js ''Old'')],
            rep_matches = 0, rep_replacements = 0,
            rep_artifact =
              Some (Artifact Overwrite [salaryRow (js ''engineer-salary'') (js ''Old'')])\<rparr>)"
  by (simp add: sample_defs process_defs state_defs string_defs)

section \<open>The counter of processed files\<close>

text \<open>
  Claim C7, as amended. In the replace and fix-slug-URLs endpoints \<open>processedFiles\<close>
  increments by one for a file processed with at least one replacement and not otherwise.
  In the process endpoint (simple and advanced mode) it increments by one for every file
  processed without an error, in search and in replace mode alike.
\<close>

theorem processedFiles_increment:
  "processedFiles (fst (replaceFile nfd lower fb ops mode s entry))
     = processedFiles s
       + (case snd (replaceFile nfd lower fb ops mode s entry) of
            Inl e \<Rightarrow> 0 | Inr rep \<Rightarrow> if rep_replacements rep > 0 then 1 else 0)
   \<and> processedFiles (fst (fixSlugFile nfd lower fb mode s entry))
     = processedFiles s
       + (case snd (fixSlugFile nfd lower fb mode s entry) of
            Inl e \<Rightarrow> 0 | Inr rep \<Rightarrow> if rep_replacements rep > 0 then 1 else 0)
   \<and> processedFiles (fst (processFileSimple engine fb req tm s f))
     = processedFiles s
       + (case snd (processFileSimple engine fb req tm s f) of Inl e \<Rightarrow> 0 | Inr rep \<Rightarrow> 1)
   \<and> processedFiles (fst (processFileAdvanced engine lower fb adv repl so mode s f))
     = processedFiles s
       + (case snd (processFileAdvanced engine lower fb adv repl so mode s f) of
            Inl e \<Rightarrow> 0 | Inr rep \<Rightarrow> 1)"
proof (intro conjI)
  show "processedFiles (fst (replaceFile nfd lower fb ops mode s entry))
     = processedFiles s
       + (case snd (replaceFile nfd lower fb ops mode s entry) of
            Inl e \<Rightarrow> 0 | Inr rep \<Rightarrow> if rep_replacements rep > 0 then 1 else 0)"
    by (auto simp: replaceFile_def saveIfChanged_def persist_def report_def editReport_def Let_def
          editLoop_files initState_def addTotalRows_def countFile_def
          split: prod.splits fileInput.splits)
  show "processedFiles (fst (fixSlugFile nfd lower fb mode s entry))
     = processedFiles s
       + (case snd (fixSlugFile nfd lower fb mode s entry) of
            Inl e \<Rightarrow> 0 | Inr rep \<Rightarrow> if rep_replacements rep > 0 then 1 else 0)"
    by (auto simp: fixSlugFile_def saveIfChanged_def persist_def report_def editReport_def Let_def
          editLoop_files initState_def addTotalRows_def countFile_def
          split: prod.splits fileInput.splits)
  show "processedFiles (fst (processFileSimple engine fb req tm s f))
     = processedFiles s
       + (case snd (processFileSimple engine fb req tm s f) of Inl e \<Rightarrow> 0 | Inr rep \<Rightarrow> 1)"
    by (auto simp: processFileSimple_def persist_def report_def Let_def
          simpleLoop_files initState_def addTotalRows_def countFile_def
          split: fileInput.splits option.splits)
  show "processedFiles (fst (processFileAdvanced engine lower fb adv repl so mode s f))
     = processedFiles s
       + (case snd (processFileAdvanced engine lower fb adv repl so mode s f) of
            Inl e \<Rightarrow> 0 | Inr rep \<Rightarrow> 1)"
  proof (cases "download fb (file_path f)")
    case (Parsed rows)
    let ?l = "advancedLoop (advancedStep engine lower adv (headersOf rows) repl so) rows
                (initState (addTotalRows (length rows) s))"
    have "processedFiles (fs_stats (fst ?l)) = processedFiles s"
      by (simp add: advancedLoop_files initState_def addTotalRows_def)
    then show ?thesis using Parsed
      by (cases ?l)
         (auto simp: processFileAdvanced_def persist_def report_def Let_def countFile_def
            split: option.splits)
  qed (simp_all add: processFileAdvanced_def)
qed

theorem processedFiles_increment_witness:
  "processedFiles (fst (fixSlugFile nfd_latin1 lower_latin1
      (oneFileStore jobsPath [salaryRow (js ''engineer-salary'') saoPaulo])
      Filebrowser (initStats 1) (jobsPath, jobsResult [1]))) = 1
   \<and> processedFiles (fst (fixSlugFile nfd_latin1 lower_latin1
      (oneFileStore jobsPath [salaryRow (js ''engineer-salary-sao-paulo'') saoPaulo])
      Filebrowser (initStats 1) (jobsPath, jobsResult [1]))) = 0"
proof -
  have e1: "snd (fixSlugFile nfd_latin1 lower_latin1
      (oneFileStore jobsPath [salaryRow (js ''engineer-salary'') saoPaulo])
      Filebrowser (initStats 1) (jobsPath, jobsResult [1]))
     = Inr \<lparr>rep_rows = [salaryRow (js ''engineer-salary-sao-paulo'') saoPaulo],
            rep_matches = 1, rep_replacements = 1,
            rep_artifact = Some (Artifact Filebrowser
                 [salaryRow (js ''engineer-salary-sao-paulo'') saoPaulo])\<rparr>"
    by (simp add: sample_defs edit_defs process_defs state_defs string_defs latin1_defs char_defs)
  have e2: "snd (fixSlugFile nfd_latin1 lower_latin1
      (oneFileStore jobsPath [salaryRow (js ''engineer-salary-sao-paulo'') saoPaulo])
      Filebrowser (initStats 1) (jobsPath, jobsResult [1]))
     = Inr \<lparr>rep_rows = [salaryRow (js ''engineer-salary-sao-paulo'') saoPaulo],
            rep_matches = 0, rep_replacements = 0, rep_artifact = None\<rparr>"
    by (simp add: sample_defs edit_defs process_defs state_defs string_defs latin1_defs char_defs)
  have i: "processedFiles (initStats 1) = 0" by (simp add: initStats_def)
  have a: "processedFiles (fst (fixSlugFile nfd_latin1 lower_latin1
      (oneFileStore jobsPath [salaryRow (js ''engineer-salary'') saoPaulo])
      Filebrowser (initStats 1) (jobsPath, jobsResult [1]))) = 1"
    using processedFiles_increment[where nfd = nfd_latin1 and lower = lower_latin1
        and fb = "oneFileStore jobsPath [salaryRow (js ''engineer-salary'') saoPaulo]"
        and mode = Filebrowser and s = "initStats 1" and entry = "(jobsPath, jobsResult [1])",
        THEN conjunct2, THEN conjunct1]
    unfolding e1 i by simp
  have b: "processedFiles (fst (fixSlugFile nfd_latin1 lower_latin1
      (oneFileStore jobsPath [salaryRow (js ''engineer-salary-sao-paulo'') saoPaulo])
      Filebrowser (initStats 1) (jobsPath, jobsResult [1]))) = 0"
    using processedFiles_increment[where nfd = nfd_latin1 and lower = lower_latin1
        and fb = "oneFileStore jobsPath [salaryRow (js ''engineer-salary-sao-paulo'') saoPaulo]"
        and mode = Filebrowser and s = "initStats 1" and entry = "(jobsPath, jobsResult [1])",
        THEN conjunct2, THEN conjunct1]
    unfolding e2 i by simp
  from a b show ?thesis by simp
qed

text \<open>
  The claim as stated fails in the process endpoint: an advanced request that replaces a
  field counts a file in which no row matched, so nothing was replaced.
\<close>

theorem processedFiles_without_replacement_counterexample:
  "processFileAdvanced literalEngine lower_latin1
      (oneFileStore jobsPath [salaryRow (js ''engineer-salary'') (js ''Old'')])
      (locationEquals (js ''Rome'')) (Some (js ''title'', js ''Doctor'')) False Filebrowser
      (initStats 1) jobsFile
    = (\<lparr>totalFiles = 1, processedFiles = 1, totalRows = 1, processedRows = 1,
         totalMatches = 0, totalReplacements = 0\<rparr>,
       Inr \<lparr>rep_rows = [salaryRow (js ''engineer-salary'') (js ''Old'')],
            rep_matches = 0, rep_replacements = 0,
            rep_artifact =
              Some (Artifact Filebrowser [salaryRow (js ''engineer-salary'') (js ''Old'')])\<rparr>)"
  by (simp add: sample_defs advanced_defs process_defs state_defs string_defs latin1_defs char_defs)

section \<open>Simple mode with \<open>showOnlyMatches\<close>\<close>

text \<open>
  Claim C10. In the simple-mode flow with \<open>showOnlyMatches\<close> set, the rows that do not
  match the search expression are left out of the processed rows: these are the matching
  rows, each as the row engine leaves it, in order. With a replacement term the persisted
  output, in every save mode and so also when the original is overwritten, holds exactly
  these rows.
\<close>

theorem showOnlyMatches_output:
  assumes dl: "download fb (file_path f) = Parsed rows"
    and re: "engine (searchPattern tm (useRegex req) (wholeWord req)) (\<not> caseSensitive req)
               = Some test"
    and so: "showOnlyMatches req"
    and ok: "persistOk fb (file_path f)"
  shows "\<exists>s' rep. processFileSimple engine fb req tm s f = (s', Inr rep)
           \<and> rep_rows rep
               = map (\<lambda>r. fst (snd (simpleRow test (headersOf rows)
                                      (replaceFieldsOf (selectedFields req) (headersOf rows))
                                      (replaceTerm req) r)))
                   (filter (\<lambda>r. test (rowText (headersOf rows) r)) rows)
           \<and> rep_artifact rep
               = (if replaceModeTerm (replaceTerm req) = None then None
                  else Some (Artifact (req_saveMode req) (rep_rows rep)))"
  using dl re so ok
  by (simp add: processFileSimple_def Let_def persist_def report_def simpleLoop_rows initState_def)

theorem showOnlyMatches_output_witness:
  "(case snd (processFileSimple literalEngine
      (oneFileStore jobsPath [salaryRow (js ''engineer-salary'') (js ''Old''),
                              salaryRow (js ''nurse-salary'') (js ''Rome'')])
      (simpleRequest (js ''nurse'') (Some (js ''X'')) [js ''title''] True Overwrite) (js ''nurse'')
      (initStats 1) jobsFile) of Inl e \<Rightarrow> None | Inr rep \<Rightarrow> rep_artifact rep)
    = Some (Artifact Overwrite
        [[(js ''slug_url'', js ''nurse-salary''), (js ''title'', js ''X''),
          (js ''location'', js ''Rome'')]])"
proof -
  let ?rows = "[salaryRow (js ''engineer-salary'') (js ''Old''),
                salaryRow (js ''nurse-salary'') (js ''Rome'')]"
  let ?req = "simpleRequest (js ''nurse'') (Some (js ''X'')) [js ''title''] True Overwrite"
  let ?test = "\<lambda>s. jsIncludes s (js ''nurse'')"
  have dl: "download (oneFileStore jobsPath ?rows) (file_path jobsFile) = Parsed ?rows"
    by (simp add: sample_defs)
  have re: "literalEngine (searchPattern (js ''nurse'') (useRegex ?req) (wholeWord ?req))
              (\<not> caseSensitive ?req) = Some ?test"
    by (simp add: sample_defs searchPattern_def escapeRegExp_def isRegexSpecial_def js_def)
  have so: "showOnlyMatches ?req" by (simp add: sample_defs)
  have ok: "persistOk (oneFileStore jobsPath ?rows) (file_path jobsFile)"
    by (simp add: sample_defs)
  have m: "map (\<lambda>r. fst (snd (simpleRow ?test (headersOf ?rows)
                  (replaceFieldsOf (selectedFields ?req) (headersOf ?rows)) (replaceTerm ?req) r)))
             (filter (\<lambda>r. ?test (rowText (headersOf ?rows) r)) ?rows)
           = [[(js ''slug_url'', js ''nurse-salary''), (js ''title'', js ''X''),
               (js ''location'', js ''Rome'')]]"
    by (simp add: sample_defs process_defs string_defs)
  have t: "replaceModeTerm (replaceTerm ?req) \<noteq> None \<and> req_saveMode ?req = Overwrite"
    by (simp add: sample_defs replaceModeTerm_def js_def)
  from showOnlyMatches_output[where engine = literalEngine
      and fb = "oneFileStore jobsPath ?rows" and req = ?req and tm = "js ''nurse''"
      and test = ?test and rows = ?rows and f = jobsFile
      and s = "initStats 1", OF dl re so ok]
  obtain s' rep where
    r: "processFileSimple literalEngine (oneFileStore jobsPath ?rows) ?req (js ''nurse'')
          (initStats 1) jobsFile = (s', Inr rep)"
    and rows: "rep_rows rep = [[(js ''slug_url'', js ''nurse-salary''), (js ''title'', js ''X''),
               (js ''location'', js ''Rome'')]]"
    and art: "rep_artifact rep = Some (Artifact Overwrite (rep_rows rep))"
    unfolding m using t by auto
  show ?thesis unfolding r using rows art by simp
qed

section \<open>The replace and fix endpoints leave everything else alone\<close>

text \<open>
  Claim C9. In the replace and the fix-slug-URLs endpoints the rows of the output are the
  parsed rows, one for one and in their order. A row whose 1-based index is not among the
  submitted search-result rows is unchanged. In a targeted row every field other than the
  target fields of the operations and \<open>slug_url\<close> keeps its value (the fix endpoint has no
  operations: there every field other than \<open>slug_url\<close> keeps its value).
\<close>

theorem edit_endpoints_frame:
  assumes dl: "download fb path = Parsed rows"
  shows "(\<forall>s' rep. replaceFile nfd lower fb ops mode s (path, sr) = (s', Inr rep) \<longrightarrow>
            length (rep_rows rep) = length rows
            \<and> (\<forall>i < length rows.
                  (int (Suc i) \<notin> set (sr_rows sr) \<longrightarrow> rep_rows rep ! i = rows ! i)
                  \<and> (\<forall>f. f \<notin> set (map op_field ops) \<and> f \<noteq> js ''slug_url''
                         \<longrightarrow> get (rep_rows rep ! i) f = get (rows ! i) f)))
       \<and> (\<forall>s' rep. fixSlugFile nfd lower fb mode s (path, sr) = (s', Inr rep) \<longrightarrow>
            length (rep_rows rep) = length rows
            \<and> (\<forall>i < length rows.
                  (int (Suc i) \<notin> set (sr_rows sr) \<longrightarrow> rep_rows rep ! i = rows ! i)
                  \<and> (\<forall>f. f \<noteq> js ''slug_url''
                         \<longrightarrow> get (rep_rows rep ! i) f = get (rows ! i) f)))"
proof -
  have 1: "length (rep_rows rep) = length rows
            \<and> (\<forall>i < length rows.
                  (int (Suc i) \<notin> set (sr_rows sr) \<longrightarrow> rep_rows rep ! i = rows ! i)
                  \<and> (\<forall>f. f \<notin> set (map op_field ops) \<and> f \<noteq> js ''slug_url''
                         \<longrightarrow> get (rep_rows rep ! i) f = get (rows ! i) f))"
    if r: "replaceFile nfd lower fb ops mode s (path, sr) = (s', Inr rep)" for s' rep
    by (simp add: replaceFile_rows[OF r dl] editLoop_length editLoop_nth replaceRow_frame)
  have 2: "length (rep_rows rep) = length rows
            \<and> (\<forall>i < length rows.
                  (int (Suc i) \<notin> set (sr_rows sr) \<longrightarrow> rep_rows rep ! i = rows ! i)
                  \<and> (\<forall>f. f \<noteq> js ''slug_url''
                         \<longrightarrow> get (rep_rows rep ! i) f = get (rows ! i) f))"
    if r: "fixSlugFile nfd lower fb mode s (path, sr) = (s', Inr rep)" for s' rep
    by (simp add: fixSlugFile_rows[OF r dl] editLoop_length editLoop_nth fixSlugRow_frame)
  from 1 2 show ?thesis by blast
qed

theorem edit_endpoints_frame_witness:
  "length (case snd (replaceFile nfd_latin1 lower_latin1
      (oneFileStore jobsPath [salaryRow (js ''engineer-salary'') (js ''Old''),
                              salaryRow (js ''nurse-salary'') (js ''Old'')])
      [setOp (js ''location'') saoPaulo] Filebrowser (initStats 1) (jobsPath, jobsResult [1]))
     of Inl e \<Rightarrow> [] | Inr rep \<Rightarrow> rep_rows rep) = 2
   \<and> (case snd (replaceFile nfd_latin1 lower_latin1
      (oneFileStore jobsPath [salaryRow (js ''engineer-salary'') (js ''Old''),
                              salaryRow (js ''nurse-salary'') (js ''Old'')])
      [setOp (js ''location'') saoPaulo] Filebrowser (initStats 1) (jobsPath, jobsResult [1]))
     of Inl e \<Rightarrow> [] | Inr rep \<Rightarrow> rep_rows rep) ! 1 = salaryRow (js ''nurse-salary'') (js ''Old'')
   \<and> get ((case snd (replaceFile nfd_latin1 lower_latin1
      (oneFileStore jobsPath [salaryRow (js ''engineer-salary'') (js ''Old''),
                              salaryRow (js ''nurse-salary'') (js ''Old'')])
      [setOp (js ''location'') saoPaulo] Filebrowser (initStats 1) (jobsPath, jobsResult [1]))
     of Inl e \<Rightarrow> [] | Inr rep \<Rightarrow> rep_rows rep) ! 0) (js ''title'') = js ''Engineer''"
proof -
  let ?rows = "[salaryRow (js ''engineer-salary'') (js ''Old''),
                salaryRow (js ''nurse-salary'') (js ''Old'')]"
  let ?fb = "oneFileStore jobsPath ?rows"
  let ?rep = "\<lparr>rep_rows = [salaryRow (js ''engineer-salary-sao-paulo'') saoPaulo,
                             salaryRow (js ''nurse-salary'') (js ''Old'')],
                 rep_matches = 2, rep_replacements = 2,
                 rep_artifact = Some (Artifact Filebrowser
                    [salaryRow (js ''engineer-salary-sao-paulo'') saoPaulo,
                     salaryRow (js ''nurse-salary'') (js ''Old'')])\<rparr>"
  have dl: "download ?fb jobsPath = Parsed ?rows" by (simp add: sample_defs)
  have e: "replaceFile nfd_latin1 lower_latin1 ?fb [setOp (js ''location'') saoPaulo] Filebrowser
             (initStats 1) (jobsPath, jobsResult [1])
           = (\<lparr>totalFiles = 1, processedFiles = 1, totalRows = 2, processedRows = 2,
                totalMatches = 0, totalReplacements = 2\<rparr>, Inr ?rep)"
    by (simp add: sample_defs edit_defs process_defs state_defs string_defs latin1_defs char_defs)
  have sr: "sr_rows (jobsResult [1]) = [1]" by (simp add: jobsResult_def)
  have ops: "map op_field [setOp (js ''location'') saoPaulo] = [js ''location'']"
    by (simp add: setOp_def)
  from edit_endpoints_frame[OF dl, THEN conjunct1, rule_format, OF e]
  have len: "length (rep_rows ?rep) = length ?rows"
    and fr: "\<And>i. i < length ?rows \<Longrightarrow>
              (int (Suc i) \<notin> set (sr_rows (jobsResult [1])) \<longrightarrow> rep_rows ?rep ! i = ?rows ! i)
              \<and> (\<forall>f. f \<notin> set (map op_field [setOp (js ''location'') saoPaulo])
                          \<and> f \<noteq> js ''slug_url''
                     \<longrightarrow> get (rep_rows ?rep ! i) f = get (?rows ! i) f)"
    by blast+
  have a: "rep_rows ?rep ! 1 = ?rows ! 1" using fr[of 1] by (simp add: sr)
  have "get (rep_rows ?rep ! 0) (js ''title'') = get (?rows ! 0) (js ''title'')"
    using fr[of 0, THEN conjunct2, rule_format, of "js ''title''"]
    by (simp add: setOp_def js_def)
  then have b: "get (rep_rows ?rep ! 0) (js ''title'') = js ''Engineer''"
    by (simp add: salaryRow_def get_def js_def)
  show ?thesis unfolding e using len a b by simp
qed

section \<open>The fix of the slug URLs is idempotent\<close>

text \<open>
  Claim C5. Running the fix-slug-URLs operation a second time, for the same search-result
  rows, over the rows the first run produced changes no row: the second run reports the
  same rows, no replacement, and writes nothing. A slug that the first run extended ends
  with the expected \<open>-salary-<normalized location>\<close> and is skipped, so no suffix is ever
  appended twice.
\<close>

theorem fixSlug_idempotent:
  assumes first: "fixSlugFile nfd lower fb mode s (path, sr) = (s1, Inr rep1)"
    and second: "download fb' path = Parsed (rep_rows rep1)"
  shows "\<exists>s2 rep2. fixSlugFile nfd lower fb' mode' s' (path, sr) = (s2, Inr rep2)
           \<and> rep_rows rep2 = rep_rows rep1 \<and> rep_replacements rep2 = 0
           \<and> rep_artifact rep2 = None"
proof -
  from first obtain rows where dl: "download fb path = Parsed rows"
    by (cases "download fb path") (auto simp: fixSlugFile_def)
  from first dl have h1: "js ''slug_url'' \<in> set (headersOf rows)"
    and h2: "js ''location'' \<in> set (headersOf rows)"
    by (auto simp: fixSlugFile_def Let_def split: if_splits)
  let ?rows1 = "fs_rows (editLoop (fixSlugRow nfd lower) (sr_rows sr) rows
                  (initState (addTotalRows (length rows) s)))"
  have rows1: "rep_rows rep1 = ?rows1" by (rule fixSlugFile_rows[OF first dl])
  have hd: "headersOf ?rows1 = headersOf rows" using h1 by (rule fixLoop_headers)
  let ?st2 = "editLoop (fixSlugRow nfd lower) (sr_rows sr) ?rows1
                (initState (addTotalRows (length ?rows1) s'))"
  have r2: "fs_rows ?st2 = ?rows1" by (rule fixLoop_rows_idem)
  have n2: "fs_replacements ?st2 = 0" by (rule fixLoop_second_no_replacements)
  have "fixSlugFile nfd lower fb' mode' s' (path, sr) = (fs_stats ?st2, Inr (editReport ?st2 None))"
    using second h1 h2 n2 by (simp add: fixSlugFile_def rows1 hd saveIfChanged_def Let_def)
  then show ?thesis using r2 n2 rows1 by (simp add: editReport_def)
qed

theorem fixSlug_idempotent_witness:
  "(case snd (fixSlugFile nfd_latin1 lower_latin1
      (oneFileStore jobsPath [salaryRow (js ''engineer-salary-sao-paulo'') saoPaulo])
      Overwrite (initStats 1) (jobsPath, jobsResult [1]))
     of Inl e \<Rightarrow> [] | Inr rep \<Rightarrow> rep_rows rep)
    = [salaryRow (js ''engineer-salary-sao-paulo'') saoPaulo]
   \<and> (case snd (fixSlugFile nfd_latin1 lower_latin1
      (oneFileStore jobsPath [salaryRow (js ''engineer-salary-sao-paulo'') saoPaulo])
      Overwrite (initStats 1) (jobsPath, jobsResult [1]))
     of Inl e \<Rightarrow> Some (Artifact Local []) | Inr rep \<Rightarrow> rep_artifact rep) = None"
proof -
  let ?rep1 = "\<lparr>rep_rows = [salaryRow (js ''engineer-salary-sao-paulo'') saoPaulo],
                  rep_matches = 1, rep_replacements = 1,
                  rep_artifact = Some (Artifact Overwrite
                     [salaryRow (js ''engineer-salary-sao-paulo'') saoPaulo])\<rparr>"
  let ?fb2 = "oneFileStore jobsPath [salaryRow (js ''engineer-salary-sao-paulo'') saoPaulo]"
  have first: "fixSlugFile nfd_latin1 lower_latin1
      (oneFileStore jobsPath [salaryRow (js ''engineer-salary'') saoPaulo])
      Overwrite (initStats 1) (jobsPath, jobsResult [1])
     = (\<lparr>totalFiles = 1, processedFiles = 1, totalRows = 1, processedRows = 1,
          totalMatches = 0, totalReplacements = 1\<rparr>, Inr ?rep1)"
    by (simp add: sample_defs edit_defs process_defs state_defs string_defs latin1_defs char_defs)
  have second: "download ?fb2 jobsPath = Parsed (rep_rows ?rep1)"
    by (simp add: oneFileStore_def)
  from fixSlug_idempotent[OF first second, of Overwrite "initStats 1"]
  obtain s2 rep2 where
    r: "fixSlugFile nfd_latin1 lower_latin1 ?fb2 Overwrite (initStats 1) (jobsPath, jobsResult [1])
          = (s2, Inr rep2)"
    and rows: "rep_rows rep2 = rep_rows ?rep1" and art: "rep_artifact rep2 = None"
    by blast
  show ?thesis unfolding r using rows art by simp
qed

section \<open>The slug rule of the replace endpoint\<close>

text \<open>
  Claim C2, as amended. In a processed file of the multi-field replace pathway, take a
  targeted row in which an operation on \<open>location\<close> changed the value the field had when
  the operation was applied. When the file has a \<open>slug_url\<close> column and the row's
  \<open>slug_url\<close> value after the operations, trimmed of surrounding whitespace, contains
  \<open>-salary\<close>: the slug is recomputed as the trimmed value up to and including its first
  \<open>-salary\<close>, with a hyphen and the normalized location of the row after the operations
  appended when the latter is not empty; it is stored when it differs from the trimmed
  value, and the stored value is left as it is otherwise. The row
  \<open>{slug_url: "engineer-salary", location: "Old"}\<close> whose location is replaced by
  \<open>Sao Paulo\<close> (with a tilde on the a) ends with the slug \<open>engineer-salary-sao-paulo\<close>.
\<close>

theorem slug_recomputed_when_location_changed:
  assumes dl: "download fb path = Parsed rows"
    and run: "replaceFile nfd lower fb ops mode s (path, sr) = (s', Inr rep)"
    and i: "i < length rows" and tg: "int (Suc i) \<in> set (sr_rows sr)"
    and split: "ops = pre @ op # post" and loc: "op_field op = js ''location''"
    and chg: "get (afterOperations (headersOf rows) pre (rows ! i)) (js ''location'') \<noteq> op_value op"
    and hdr: "js ''slug_url'' \<in> set (headersOf rows)"
    and sal: "jsIncludes (trim (get (afterOperations (headersOf rows) ops (rows ! i))
                                  (js ''slug_url''))) (js ''-salary'')"
  shows "\<exists>k. indexOf (trim (get (afterOperations (headersOf rows) ops (rows ! i)) (js ''slug_url'')))
                 (js ''-salary'') = Some k
           \<and> take 7 (drop k (trim (get (afterOperations (headersOf rows) ops (rows ! i))
                                      (js ''slug_url'')))) = js ''-salary''
           \<and> (\<forall>j < k. take 7 (drop j (trim (get (afterOperations (headersOf rows) ops (rows ! i))
                                               (js ''slug_url'')))) \<noteq> js ''-salary'')
           \<and> get (rep_rows rep ! i) (js ''slug_url'')
               = (let r1 = afterOperations (headersOf rows) ops (rows ! i);
                      cur = trim (get r1 (js ''slug_url''));
                      n = normalizeToKebabCase nfd lower (get r1 (js ''location''));
                      slug = take (k + 7) cur @ (if n = [] then [] else [hyphen] @ n)
                  in if slug = cur then get r1 (js ''slug_url'') else slug)"
proof -
  let ?hs = "headersOf rows"
  let ?r1 = "afterOperations ?hs ops (rows ! i)"
  let ?cur = "trim (get ?r1 (js ''slug_url''))"
  from sal obtain k where k: "indexOf ?cur (js ''-salary'') = Some k"
    by (auto simp: jsIncludes_def)
  note first = indexOf_first[OF k, unfolded salary_length]
  from run dl have "filter (\<lambda>f. f \<notin> set ?hs) (map op_field ops) = []"
    by (auto simp: replaceFile_def Let_def split: if_splits)
  then have "\<forall>f \<in> set (map op_field ops). f \<in> set ?hs" by (simp add: filter_empty_conv)
  moreover have "js ''location'' \<in> set (map op_field ops)" using split loc by force
  ultimately have lh: "js ''location'' \<in> set ?hs" by blast
  from location_change_remembered[OF split loc lh chg]
  obtain old evs where
    st: "fold (applyOperation ?hs) ops (rows ! i, [], None)
           = (?r1, evs, Some (old, get ?r1 (js ''location'')))"
    by blast
  have row: "rep_rows rep ! i = fst (replaceRow nfd lower ?hs ops (rows ! i))"
    using i tg by (simp add: replaceFile_rows[OF run dl] editLoop_nth)
  have "get (fst (replaceRow nfd lower ?hs ops (rows ! i))) (js ''slug_url'')
          = (let cur = ?cur;
                 n = normalizeToKebabCase nfd lower (get ?r1 (js ''location''));
                 slug = take (k + 7) cur @ (if n = [] then [] else [hyphen] @ n)
             in if slug = cur then get ?r1 (js ''slug_url'') else slug)"
    using hdr k sal
    by (simp add: replaceRow_def st updateSlugUrl_def Let_def get_put)
  with row k first show ?thesis by (auto simp: Let_def)
qed

theorem slug_recomputed_when_location_changed_witness:
  "get ((case snd (replaceFile nfd_latin1 lower_latin1
                (oneFileStore jobsPath [salaryRow (js ''engineer-salary'') (js ''Old'')])
                [setOp (js ''location'') saoPaulo] Filebrowser (initStats 1)
                (jobsPath, jobsResult [1]))
          of Inl e \<Rightarrow> [] | Inr rep \<Rightarrow> rep_rows rep) ! 0) (js ''slug_url'')
     = js ''engineer-salary-sao-paulo''"
proof -
  let ?row = "salaryRow (js ''engineer-salary'') (js ''Old'')"
  let ?rows = "[?row]"
  let ?fb = "oneFileStore jobsPath ?rows"
  let ?op = "setOp (js ''location'') saoPaulo"
  let ?rep = "\<lparr>rep_rows = [salaryRow (js ''engineer-salary-sao-paulo'') saoPaulo],
                 rep_matches = 2, rep_replacements = 2,
                 rep_artifact = Some (Artifact Filebrowser
                    [salaryRow (js ''engineer-salary-sao-paulo'') saoPaulo])\<rparr>"
  have dl: "download ?fb jobsPath = Parsed ?rows" by (simp add: oneFileStore_def)
  have run: "replaceFile nfd_latin1 lower_latin1 ?fb [?op] Filebrowser (initStats 1)
               (jobsPath, jobsResult [1])
             = (\<lparr>totalFiles = 1, processedFiles = 1, totalRows = 1, processedRows = 1,
                  totalMatches = 0, totalReplacements = 2\<rparr>, Inr ?rep)"
    by (simp add: sample_defs edit_defs process_defs state_defs string_defs latin1_defs char_defs)
  have i: "0 < length ?rows" by simp
  have tg: "int (Suc 0) \<in> set (sr_rows (jobsResult [1]))" by (simp add: jobsResult_def)
  have split: "[?op] = [] @ ?op # []" by simp
  have loc: "op_field ?op = js ''location''" by (simp add: setOp_def)
  have hs: "headersOf ?rows = salaryHeaders"
    by (simp add: headersOf_def salaryRow_def salaryHeaders_def)
  have chg: "get (afterOperations (headersOf ?rows) [] (?rows ! 0)) (js ''location'') \<noteq> op_value ?op"
    by (simp add: afterOperations_def sample_defs get_def js_def)
  have hdr: "js ''slug_url'' \<in> set (headersOf ?rows)" by (simp add: hs salaryHeaders_def)
  have aft: "afterOperations (headersOf ?rows) [?op] (?rows ! 0)
               = salaryRow (js ''engineer-salary'') saoPaulo"
    by (simp add: headersOf_def afterOperations_def applyOperation_def sample_defs
          get_def put_def js_def Let_def)
  have cur: "trim (get (salaryRow (js ''engineer-salary'') saoPaulo) (js ''slug_url''))
               = js ''engineer-salary''"
    by (simp add: sample_defs get_def string_defs char_defs)
  have newloc: "get (salaryRow (js ''engineer-salary'') saoPaulo) (js ''location'') = saoPaulo"
    by (simp add: sample_defs get_def js_def)
  have raw: "get (salaryRow (js ''engineer-salary'') saoPaulo) (js ''slug_url'')
               = js ''engineer-salary''"
    by (simp add: sample_defs get_def js_def)
  have idx: "indexOf (js ''engineer-salary'') (js ''-salary'') = Some 8"
    by (simp add: string_defs)
  have sal: "jsIncludes (trim (get (afterOperations (headersOf ?rows) [?op] (?rows ! 0))
                                 (js ''slug_url''))) (js ''-salary'')"
    unfolding aft cur by (simp add: jsIncludes_def idx)
  have n: "normalizeToKebabCase nfd_latin1 lower_latin1 saoPaulo = js ''sao-paulo''"
    by (simp add: normalizeToKebabCase_def trimHyphens_def sample_defs string_defs latin1_defs
          char_defs)
  note T = slug_recomputed_when_location_changed[OF dl run i tg split loc chg hdr sal,
      unfolded aft Let_def, unfolded cur, unfolded newloc raw n idx]
  from T have "get (rep_rows ?rep ! 0) (js ''slug_url'') = js ''engineer-salary-sao-paulo''"
    by (auto simp: js_def hyphen_def)
  then show ?thesis unfolding run by simp
qed

text \<open>
  The claim as stated fails on two rows whose slug ends with \<open>-salary\<close>. A slug with
  leading whitespace is trimmed before the rule, so the stored slug is not the value up
  to \<open>-salary\<close> with the suffix appended. A slug with an earlier \<open>-salary\<close> is cut after
  the first occurrence, so what stands between it and the final \<open>-salary\<close> is lost.
\<close>

theorem slug_recomputed_counterexample:
  "endsWith (js '' engineer-salary'') (js ''-salary'')
   \<and> get (fst (replaceRow nfd_latin1 lower_latin1 salaryHeaders [setOp (js ''location'') saoPaulo]
               (salaryRow (js '' engineer-salary'') (js ''Old'')))) (js ''slug_url'')
       = js ''engineer-salary-sao-paulo''
   \<and> spec_recomputed_slug (js '' engineer-salary'') (js ''sao-paulo'')
       = js '' engineer-salary-sao-paulo''
   \<and> endsWith (js ''top-salary-jobs-salary'') (js ''-salary'')
   \<and> get (fst (replaceRow nfd_latin1 lower_latin1 salaryHeaders [setOp (js ''location'') saoPaulo]
               (salaryRow (js ''top-salary-jobs-salary'') (js ''Old'')))) (js ''slug_url'')
       = js ''top-salary-sao-paulo''
   \<and> spec_recomputed_slug (js ''top-salary-jobs-salary'') (js ''sao-paulo'')
       = js ''top-salary-jobs-salary-sao-paulo''"
  by (simp add: sample_defs salaryHeaders_def spec_recomputed_slug_def edit_defs process_defs
        string_defs latin1_defs char_defs)

section \<open>The replacement value \<open>empty\<close>\<close>

text \<open>
  Claim C8, as amended. In the multi-condition replace path a replace condition whose
  value, trimmed and lowercased, is \<open>empty\<close> reaches the endpoint as an operation with the
  empty string, and the target field of every targeted row of a processed file ends as the
  empty string, not as the text \<open>empty\<close>, provided that every later condition on the same
  field carries \<open>empty\<close> as well: the operations on one field are applied in order and the
  last one decides.
\<close>

theorem last_empty_value_clears_field:
  assumes sent: "startReplace lower conds fileResults has mode = Some req"
    and split: "conds = pre @ c # post" and fld: "rc_field c \<noteq> []"
    and emp: "lower (trim (rc_value c)) = js ''empty''"
    and later: "\<And>d. d \<in> set post \<Longrightarrow> rc_field d = rc_field c
                 \<Longrightarrow> lower (trim (rc_value d)) = js ''empty''"
    and dl: "download fb path = Parsed rows"
    and i: "i < length rows" and tg: "int (Suc i) \<in> set (sr_rows sr)"
  shows "\<exists>ops. operationsOf req = Inr ops
           \<and> (\<forall>s' rep. replaceFile nfd lower fb ops (rr_saveMode req) s (path, sr) = (s', Inr rep)
                 \<longrightarrow> get (rep_rows rep ! i) (rc_field c) = [])"
proof -
  let ?ops = "buildReplaceOperations lower conds"
  let ?f = "rc_field c"
  let ?op = "\<lparr>op_field = rc_field c,
              op_value = (if lower (trim (rc_value c)) = js ''empty'' then [] else rc_value c)\<rparr>"
  have o: "operationsOf req = Inr ?ops" using sent by (rule startReplace_operationsOf)
  have sp: "?ops = buildReplaceOperations lower pre @ ?op # buildReplaceOperations lower post"
    unfolding split using fld by (rule buildReplaceOperations_split)
  have f: "op_field ?op = ?f" and v: "op_value ?op = []" using emp by simp_all
  have post: "op_value o' = []"
    if "o' \<in> set (buildReplaceOperations lower post)" and "op_field o' = ?f" for o'
    using that later by (auto simp: buildReplaceOperations_def)
  have "get (rep_rows rep ! i) ?f = []"
    if run: "replaceFile nfd lower fb ?ops (rr_saveMode req) s (path, sr) = (s', Inr rep)"
    for s' rep
  proof -
    from run dl have "filter (\<lambda>f. f \<notin> set (headersOf rows)) (map op_field ?ops) = []"
      by (auto simp: replaceFile_def Let_def split: if_splits)
    then have "\<forall>g \<in> set (map op_field ?ops). g \<in> set (headersOf rows)"
      by (simp add: filter_empty_conv)
    moreover have "?f \<in> set (map op_field ?ops)" unfolding sp by simp
    ultimately have hdr: "?f \<in> set (headersOf rows)" by blast
    have "rep_rows rep ! i = fst (replaceRow nfd lower (headersOf rows) ?ops (rows ! i))"
      using i tg by (simp add: replaceFile_rows[OF run dl] editLoop_nth)
    then show ?thesis using replaceRow_last_cleared[OF sp f v hdr post] by simp
  qed
  with o show ?thesis by blast
qed

theorem last_empty_value_clears_field_witness:
  "buildReplaceOperations lower_latin1
      [\<lparr>rc_field = js ''title'', rc_value = js ''X''\<rparr>,
       \<lparr>rc_field = js ''title'', rc_value = js '' Empty ''\<rparr>]
     = [setOp (js ''title'') (js ''X''), setOp (js ''title'') []]
   \<and> get ((case snd (replaceFile nfd_latin1 lower_latin1
               (oneFileStore jobsPath [salaryRow (js ''engineer-salary'') (js ''Old'')])
               (buildReplaceOperations lower_latin1
                  [\<lparr>rc_field = js ''title'', rc_value = js ''X''\<rparr>,
                   \<lparr>rc_field = js ''title'', rc_value = js '' Empty ''\<rparr>])
               Filebrowser (initStats 1) (jobsPath, jobsResult [1]))
            of Inl e \<Rightarrow> [] | Inr rep \<Rightarrow> rep_rows rep) ! 0) (js ''title'') = []"
proof -
  let ?x = "\<lparr>rc_field = js ''title'', rc_value = js ''X''\<rparr>"
  let ?c = "\<lparr>rc_field = js ''title'', rc_value = js '' Empty ''\<rparr>"
  let ?rows = "[salaryRow (js ''engineer-salary'') (js ''Old'')]"
  let ?fb = "oneFileStore jobsPath ?rows"
  let ?req = "\<lparr>searchResults = [jobsResult [1]], rr_replaceTargetField = None,
                 rr_replaceValue = None,
                 replaceOperations = Some (buildReplaceOperations lower_latin1 [?x, ?c]),
                 rr_saveMode = Filebrowser\<rparr>"
  let ?rep = "\<lparr>rep_rows = [[(js ''slug_url'', js ''engineer-salary''), (js ''title'', []),
                              (js ''location'', js ''Old'')]],
                 rep_matches = 2, rep_replacements = 2,
                 rep_artifact = Some (Artifact Filebrowser
                     [[(js ''slug_url'', js ''engineer-salary''), (js ''title'', []),
                       (js ''location'', js ''Old'')]])\<rparr>"
  have emp: "lower_latin1 (trim (rc_value ?c)) = js ''empty''"
    by (simp add: string_defs latin1_defs char_defs)
  have nx: "lower_latin1 (trim (js ''X'')) \<noteq> js ''empty''"
    by (simp add: string_defs latin1_defs char_defs)
  have b: "buildReplaceOperations lower_latin1 [?x, ?c]
             = [setOp (js ''title'') (js ''X''), setOp (js ''title'') []]"
    using emp nx by (simp add: buildReplaceOperations_def setOp_def js_def)
  have sent: "startReplace lower_latin1 [?x, ?c] [jobsResult [1]] True Filebrowser = Some ?req"
    by (simp add: startReplace_def jobsResult_def js_def Let_def)
  have split: "[?x, ?c] = [?x] @ ?c # []" by simp
  have fld: "rc_field ?c \<noteq> []" by (simp add: js_def)
  have later: "\<And>d. d \<in> set [] \<Longrightarrow> rc_field d = rc_field ?c
                \<Longrightarrow> lower_latin1 (trim (rc_value d)) = js ''empty''"
    by simp
  have dl: "download ?fb jobsPath = Parsed ?rows" by (simp add: oneFileStore_def)
  have i: "0 < length ?rows" by simp
  have tg: "int (Suc 0) \<in> set (sr_rows (jobsResult [1]))" by (simp add: jobsResult_def)
  have e: "replaceFile nfd_latin1 lower_latin1 ?fb (buildReplaceOperations lower_latin1 [?x, ?c])
             Filebrowser (initStats 1) (jobsPath, jobsResult [1])
           = (\<lparr>totalFiles = 1, processedFiles = 1, totalRows = 1, processedRows = 1,
                totalMatches = 0, totalReplacements = 2\<rparr>, Inr ?rep)"
    unfolding b
    by (simp add: sample_defs edit_defs process_defs state_defs string_defs latin1_defs char_defs)
  from last_empty_value_clears_field[where i = 0 and nfd = nfd_latin1 and s = "initStats 1",
      OF sent split fld emp later dl i tg]
  obtain ops where o: "operationsOf ?req = Inr ops"
    and cl: "\<And>s' rep. replaceFile nfd_latin1 lower_latin1 ?fb ops (rr_saveMode ?req)
                 (initStats 1) (jobsPath, jobsResult [1]) = (s', Inr rep)
               \<Longrightarrow> get (rep_rows rep ! 0) (rc_field ?c) = []"
    by auto
  from o have ops: "ops = buildReplaceOperations lower_latin1 [?x, ?c]"
    unfolding b by (simp add: operationsOf_def setOp_def)
  have "get (rep_rows ?rep ! 0) (rc_field ?c) = []"
    by (rule cl) (simp only: ops replaceRequest.select_convs e)
  then show ?thesis unfolding e using b by simp
qed

text \<open>
  The claim as stated fails when a later condition names the same field: the value
  \<open>empty\<close> followed by \<open>X\<close> on \<open>title\<close> leaves the title \<open>X\<close>.
\<close>

theorem empty_value_overwritten_counterexample:
  "lower_latin1 (trim (js ''empty'')) = js ''empty''
   \<and> buildReplaceOperations lower_latin1
        [\<lparr>rc_field = js ''title'', rc_value = js ''empty''\<rparr>,
         \<lparr>rc_field = js ''title'', rc_value = js ''X''\<rparr>]
       = [setOp (js ''title'') [], setOp (js ''title'') (js ''X'')]
   \<and> replaceFile nfd_latin1 lower_latin1
        (oneFileStore jobsPath [salaryRow (js ''engineer-salary'') (js ''Old'')])
        (buildReplaceOperations lower_latin1
           [\<lparr>rc_field = js ''title'', rc_value = js ''empty''\<rparr>,
            \<lparr>rc_field = js ''title'', rc_value = js ''X''\<rparr>])
        Filebrowser (initStats 1) (jobsPath, jobsResult [1])
       = (\<lparr>totalFiles = 1, processedFiles = 1, totalRows = 1, processedRows = 1,
            totalMatches = 0, totalReplacements = 2\<rparr>,
          Inr \<lparr>rep_rows = [[(js ''slug_url'', js ''engineer-salary''), (js ''title'', js ''X''),
                             (js ''location'', js ''Old'')]],
               rep_matches = 2, rep_replacements = 2,
               rep_artifact = Some (Artifact Filebrowser
                   [[(js ''slug_url'', js ''engineer-salary''), (js ''title'', js ''X''),
                     (js ''location'', js ''Old'')]])\<rparr>)"
  by (simp add: buildReplaceOperations_def sample_defs edit_defs process_defs state_defs
        string_defs latin1_defs char_defs)

end
